theory Spec2Isabelle
  imports Main "HOL-Library.Sublist"
begin

section \<open>Service discovery crawler: find_other_company_services.js\<close>

text \<open>
  A shallow embedding of \<^verbatim>\<open>src/competitor-crawler/src/find_other_company_services.js\<close>:
  the URL classifier (\<^verbatim>\<open>extractDomain\<close>, \<^verbatim>\<open>shouldExcludeUrl\<close>,
  \<^verbatim>\<open>isPotentialDifferentService\<close>), the request handler with its three global
  registries, and the result records of \<^verbatim>\<open>findCompanyServices\<close>.

  JavaScript strings are modelled as \<open>string\<close> (lists of 8-bit characters), which covers
  the ASCII URLs the classifier's constants are written in. An exception is a value:
  a computation that may throw has type \<open>js_error + 'a\<close>, and every \<^verbatim>\<open>try/catch\<close> of
  the source is a \<open>tryCatch\<close> (in the classifier) or a \<open>catching\<close> (in the handler) of
  the model.
\<close>

subsection \<open>Strings\<close>

definition startsWith :: "string \<Rightarrow> string \<Rightarrow> bool" where
  "startsWith s p = prefix p s"

definition endsWith :: "string \<Rightarrow> string \<Rightarrow> bool" where
  "endsWith s p = suffix p s"

definition str_includes :: "string \<Rightarrow> string \<Rightarrow> bool" where
  "str_includes s p = sublist p s"

text \<open>
  \<^verbatim>\<open>toLowerCase\<close> on ASCII: the letters \<^verbatim>\<open>A\<close> to \<^verbatim>\<open>Z\<close> (codes 65 to 90) get bit 5 set,
  which adds 32; every other character is kept.
\<close>

definition isUpper :: "char \<Rightarrow> bool" where
  "isUpper c = (65 \<le> (of_char c :: nat) \<and> (of_char c :: nat) \<le> 90)"

definition lowerChar :: "char \<Rightarrow> char" where
  "lowerChar c =
     (if isUpper c
      then (case c of Char b0 b1 b2 b3 b4 b5 b6 b7 \<Rightarrow> Char b0 b1 b2 b3 b4 True b6 b7)
      else c)"

definition toLowerCase :: "string \<Rightarrow> string" where
  "toLowerCase s = map lowerChar s"

text \<open>\<^verbatim>\<open>s.split(sep)\<close> for a one-character separator: \<^verbatim>\<open>"".split("/")\<close> is \<^verbatim>\<open>[""]\<close>.\<close>

fun split :: "char \<Rightarrow> string \<Rightarrow> string list" where
  "split sep [] = [[]]"
| "split sep (c # cs) =
     (if c = sep then [] # split sep cs
      else (case split sep cs of
              [] \<Rightarrow> [[c]]
            | w # ws \<Rightarrow> (c # w) # ws))"

text \<open>\<^verbatim>\<open>.filter(Boolean)\<close> on an array of strings drops the empty ones.\<close>

definition filterBoolean :: "string list \<Rightarrow> string list" where
  "filterBoolean xs = filter (\<lambda>x. x \<noteq> []) xs"

subsection \<open>Exceptions\<close>

datatype js_error = TypeError | AutomationError

definition andThen :: "js_error + 'a \<Rightarrow> ('a \<Rightarrow> js_error + 'b) \<Rightarrow> js_error + 'b" where
  "andThen m f = (case m of Inl e \<Rightarrow> Inl e | Inr x \<Rightarrow> f x)"

definition tryCatch :: "js_error + 'a \<Rightarrow> (js_error \<Rightarrow> js_error + 'a) \<Rightarrow> js_error + 'a" where
  "tryCatch m h = (case m of Inl e \<Rightarrow> h e | Inr x \<Rightarrow> Inr x)"

subsection \<open>The platform's URL class\<close>

text \<open>
  \<^verbatim>\<open>new URL(u)\<close> is Node's implementation of the WHATWG URL parser; it is not part of the
  repository. The functions of the source read two fields of the parsed value, and
  \<^verbatim>\<open>new URL\<close> throws a \<^verbatim>\<open>TypeError\<close> when the text does not parse. Every function below
  takes the parser as its first argument \<open>parse\<close>, where \<open>parse u = None\<close> stands for the
  throw; what is proved for every \<open>parse\<close> holds for the platform's parser.
\<close>

record parsed_url =
  hostname :: string
  pathname :: string

type_synonym url_parser = "string \<Rightarrow> parsed_url option"

definition newURL :: "url_parser \<Rightarrow> string \<Rightarrow> js_error + parsed_url" where
  "newURL parse u = (case parse u of None \<Rightarrow> Inl TypeError | Some p \<Rightarrow> Inr p)"

text \<open>
  \<open>parseURL\<close> is a model of that parser on absolute URLs of the plain shape
  \<^verbatim>\<open>scheme:[//[userinfo@]host[:port]][/path][?query][#fragment]\<close> (with the \<^verbatim>\<open>//\<close>
  part present after a special scheme) written in ASCII
  without characters that the parser would escape, without dot segments and without a
  numeric host. It follows the standard in what the source depends on:
  a text without a scheme does not parse (there is no base URL); \<^verbatim>\<open>http\<close>,
  \<^verbatim>\<open>https\<close>, \<^verbatim>\<open>ws\<close>, \<^verbatim>\<open>wss\<close>, \<^verbatim>\<open>ftp\<close> and \<^verbatim>\<open>file\<close> are the special schemes,
  whose host is lower-cased (and mandatory, except after \<^verbatim>\<open>file\<close>) and whose empty path
  is \<^verbatim>\<open>/\<close>; the host of any other scheme is opaque and keeps its letter case; a URL
  without \<^verbatim>\<open>//\<close> has an empty hostname. It is used on concrete inputs of that shape only.
\<close>

definition isAlpha :: "char \<Rightarrow> bool" where
  "isAlpha c = (c \<in> set ''abcdefghijklmnopqrstuvwxyzABCDEFGHIJKLMNOPQRSTUVWXYZ'')"

definition isSchemeChar :: "char \<Rightarrow> bool" where
  "isSchemeChar c = (isAlpha c \<or> c \<in> set ''0123456789+-.'')"

definition specialSchemes :: "string list" where
  "specialSchemes = [''http'', ''https'', ''ws'', ''wss'', ''ftp'', ''file'']"

definition stripUserinfo :: "string \<Rightarrow> string" where
  "stripUserinfo a =
     (if CHR ''@'' \<in> set a then rev (takeWhile (\<lambda>c. c \<noteq> CHR ''@'') (rev a)) else a)"

definition stripPort :: "string \<Rightarrow> string" where
  "stripPort a = takeWhile (\<lambda>c. c \<noteq> CHR '':'') a"

definition schemeOf :: "string \<Rightarrow> string" where
  "schemeOf u = takeWhile (\<lambda>c. c \<noteq> CHR '':'') u"

definition hasSpecialScheme :: "string \<Rightarrow> bool" where
  "hasSpecialScheme u = (toLowerCase (schemeOf u) \<in> set specialSchemes)"

definition validScheme :: "string \<Rightarrow> bool" where
  "validScheme u =
     (schemeOf u \<noteq> [] \<and> isAlpha (hd (schemeOf u)) \<and> list_all isSchemeChar (schemeOf u)
      \<and> length (schemeOf u) < length u)"

definition afterScheme :: "string \<Rightarrow> string" where
  "afterScheme u =
     takeWhile (\<lambda>c. c \<noteq> CHR ''?'' \<and> c \<noteq> CHR ''#'') (drop (Suc (length (schemeOf u))) u)"

definition hostOf :: "string \<Rightarrow> string" where
  "hostOf u =
     stripPort (stripUserinfo (takeWhile (\<lambda>c. c \<noteq> CHR ''/'') (drop 2 (afterScheme u))))"

definition pathOf :: "string \<Rightarrow> string" where
  "pathOf u = dropWhile (\<lambda>c. c \<noteq> CHR ''/'') (drop 2 (afterScheme u))"

definition parseURL :: url_parser where
  "parseURL u =
     (if \<not> validScheme u then None
      else if startsWith (afterScheme u) ''//''
      then (if hasSpecialScheme u
            then (if hostOf u = [] \<and> toLowerCase (schemeOf u) \<noteq> ''file'' then None
                  else Some \<lparr>hostname = toLowerCase (hostOf u),
                             pathname = (if pathOf u = [] then ''/'' else pathOf u)\<rparr>)
            else Some \<lparr>hostname = hostOf u, pathname = pathOf u\<rparr>)
      else if hasSpecialScheme u then None
      else Some \<lparr>hostname = [], pathname = afterScheme u\<rparr>)"

subsection \<open>Configuration\<close>

definition INTERNAL_TOOL_INDICATORS :: "string list" where
  "INTERNAL_TOOL_INDICATORS =
     [''login'', ''dashboard'', ''app'', ''portal'', ''admin'', ''console'', ''platform'',
      ''signup'', ''sign-up'', ''sign_up'', ''register'', ''account'', ''auth'',
      ''api'', ''docs'', ''documentation'', ''developer'', ''dev'',
      ''tool'', ''tools'', ''workspace'', ''client'', ''manage'', ''management'',
      ''analytics'', ''report'', ''reports'', ''monitor'', ''monitoring'']"

definition EXCLUDED_DOMAINS :: "string list" where
  "EXCLUDED_DOMAINS =
     [''twitter.com'', ''x.com'',
      ''facebook.com'', ''fb.com'',
      ''instagram.com'',
      ''linkedin.com'',
      ''youtube.com'',
      ''github.com'',
      ''medium.com'',
      ''discord.com'', ''discord.gg'',
      ''slack.com'',
      ''reddit.com'',
      ''pinterest.com'',
      ''tiktok.com'']"

subsection \<open>The URL classifier\<close>

text \<open>\<^verbatim>\<open>extractDomain\<close>: the hostname of the parsed URL; the \<^verbatim>\<open>catch\<close> returns \<^verbatim>\<open>''\<close>.\<close>

definition extractDomain :: "url_parser \<Rightarrow> string \<Rightarrow> js_error + string" where
  "extractDomain parse u =
     tryCatch
       (andThen (newURL parse u) (\<lambda>parsedUrl. Inr (hostname parsedUrl)))
       (\<lambda>error. Inr [])"

text \<open>
  \<^verbatim>\<open>shouldExcludeUrl\<close>: the two literal prefixes are tested on the text before anything is
  parsed; the deny-list is matched on the extracted domain.
\<close>

definition shouldExcludeUrl :: "url_parser \<Rightarrow> string \<Rightarrow> js_error + bool" where
  "shouldExcludeUrl parse u =
     (if startsWith u ''mailto:'' \<or> startsWith u ''tel:'' then Inr True
      else tryCatch
             (andThen (extractDomain parse u) (\<lambda>domain.
                Inr (list_ex (\<lambda>excludedDomain.
                        domain = excludedDomain \<or> endsWith domain (''.'' @ excludedDomain))
                      EXCLUDED_DOMAINS)))
             (\<lambda>error. Inr False))"

text \<open>The test on one path segment and one indicator (lines 139--142 of the source).\<close>

definition segmentMatches :: "string \<Rightarrow> string \<Rightarrow> bool" where
  "segmentMatches segment indicator =
     (segment = indicator \<or>
      startsWith segment (indicator @ ''-'') \<or>
      endsWith segment (''-'' @ indicator) \<or>
      str_includes segment (''-'' @ indicator @ ''-''))"

definition hasToolIndicator :: "string \<Rightarrow> bool" where
  "hasToolIndicator targetPath =
     (let pathSegments = filterBoolean (split (CHR ''/'') targetPath)
      in list_ex (\<lambda>segment. list_ex (\<lambda>indicator. segmentMatches segment indicator)
                               INTERNAL_TOOL_INDICATORS)
           pathSegments)"

definition isPotentialDifferentService :: "url_parser \<Rightarrow> string \<Rightarrow> string \<Rightarrow> js_error + bool" where
  "isPotentialDifferentService parse originalUrl targetUrl =
     tryCatch
       (andThen (shouldExcludeUrl parse targetUrl) (\<lambda>excluded.
          if excluded then Inr False
          else
            andThen (newURL parse originalUrl) (\<lambda>originalParsed.
            andThen (newURL parse targetUrl) (\<lambda>targetParsed.
              if hostname originalParsed \<noteq> hostname targetParsed then Inr True
              else
                (let targetPath = toLowerCase (pathname targetParsed)
                 in if \<not> hasToolIndicator targetPath then Inr False
                    else
                      (let originalPath = toLowerCase (pathname originalParsed)
                       in if startsWith targetPath originalPath \<and> targetPath \<noteq> originalPath
                          then Inr False
                          else Inr True))))))
       (\<lambda>error. Inr False)"

subsection \<open>Requests, pages and the global registries\<close>

text \<open>
  \<^verbatim>\<open>request.userData\<close> carries the label, the parent URL, the original domain and the
  company name; each may be absent, and the handler reads each with a default. The source
  creates requests with the labels \<^verbatim>\<open>'start'\<close> and \<^verbatim>\<open>'child'\<close> only, so the label is a
  datatype of these two.
\<close>

datatype label = Start | Child

record user_data =
  ud_label :: "label option"
  ud_parentUrl :: "string option"
  ud_originalDomain :: "string option"
  ud_companyName :: "string option"

record request =
  req_url :: string
  userData :: user_data

record company =
  c_name :: string
  c_url :: string

text \<open>
  What the browser shows the handler. A potential link is one entry of the handler's
  \<^verbatim>\<open>potentialLinks\<close> array: its \<^verbatim>\<open>type\<close>, and what the click on its element led to when
  the handler tried it: a new page opened at a URL, no new page opened and the current
  page reports a URL (its own, or another one after a navigation), or an exception in the
  \<^verbatim>\<open>try\<close> block. \<open>anchors\<close> are the \<^verbatim>\<open>href\<close> properties of the page's \<^verbatim>\<open>a[href]\<close> elements,
  \<open>locationHostname\<close> is \<^verbatim>\<open>window.location.hostname\<close>, and \<open>enqueueCandidates\<close> are the
  request URLs that the crawler's \<^verbatim>\<open>enqueueLinks\<close> (strategy \<^verbatim>\<open>same-hostname\<close>) hands to
  \<^verbatim>\<open>transformRequestFunction\<close>.
\<close>

datatype link_type =
  Href | Onclick | AngularClick | Jsaction | ReactRole | FrameworkComponent | ButtonElement

datatype click_result = NewPage string | SamePage string | ClickThrew

record potential_link =
  pl_type :: link_type
  pl_click :: click_result

record page =
  potentialLinks :: "potential_link list"
  anchors :: "string list"
  locationHostname :: string
  enqueueCandidates :: "string list"

text \<open>
  The three global objects of the source, and the requests handed to the crawler
  (\<^verbatim>\<open>crawler.run\<close>, \<^verbatim>\<open>crawler.addRequests\<close>, \<^verbatim>\<open>enqueueLinks\<close>) in the order they were handed.
  An object is a map from its keys to arrays; the keys are URL texts, and reading a key
  that was never written gives \<^verbatim>\<open>undefined\<close>, here \<open>None\<close>.
\<close>

type_synonym registry = "string \<rightharpoonup> string list"

record crawl_state =
  potentialDifferentServices :: registry
  allExploredUrls :: registry
  startUrlChildren :: registry
  addedRequests :: "request list"

definition entries :: "registry \<Rightarrow> string \<Rightarrow> string set" where
  "entries reg k = (case reg k of None \<Rightarrow> {} | Some xs \<Rightarrow> set xs)"

subsection \<open>Actions on the registries\<close>

text \<open>
  An action runs on the state and either returns a value or throws; the state it leaves
  is kept in both cases, as the globals of the source keep what was written before a throw.
\<close>

type_synonym 'a action = "crawl_state \<Rightarrow> (js_error + 'a) \<times> crawl_state"

definition ret :: "'a \<Rightarrow> 'a action" where
  "ret x = (\<lambda>s. (Inr x, s))"

definition raise :: "js_error \<Rightarrow> 'a action" where
  "raise e = (\<lambda>s. (Inl e, s))"

definition actBind :: "'a action \<Rightarrow> ('a \<Rightarrow> 'b action) \<Rightarrow> 'b action" where
  "actBind m f = (\<lambda>s. case m s of (Inl e, s') \<Rightarrow> (Inl e, s') | (Inr x, s') \<Rightarrow> f x s')"

definition thenDo :: "unit action \<Rightarrow> 'a action \<Rightarrow> 'a action" where
  "thenDo a b = actBind a (\<lambda>_. b)"

definition whenDo :: "bool \<Rightarrow> unit action \<Rightarrow> unit action" where
  "whenDo c a = (if c then a else ret ())"

definition lift :: "js_error + 'a \<Rightarrow> 'a action" where
  "lift m = (case m of Inl e \<Rightarrow> raise e | Inr x \<Rightarrow> ret x)"

text \<open>\<^verbatim>\<open>try { a } catch (e) { log.error(...) }\<close>: the error is logged and dropped.\<close>

definition catching :: "unit action \<Rightarrow> unit action" where
  "catching a = (\<lambda>s. (Inr (), snd (a s)))"

fun forEach :: "('a \<Rightarrow> unit action) \<Rightarrow> 'a list \<Rightarrow> unit action" where
  "forEach f [] = ret ()"
| "forEach f (x # xs) = thenDo (f x) (forEach f xs)"

fun mapAction :: "('a \<Rightarrow> 'b action) \<Rightarrow> 'a list \<Rightarrow> 'b list action" where
  "mapAction f [] = ret []"
| "mapAction f (x # xs) =
     actBind (f x) (\<lambda>y. actBind (mapAction f xs) (\<lambda>ys. ret (y # ys)))"

text \<open>
  \<^verbatim>\<open>if (!reg[key].includes(v)) { reg[key].push(v); }\<close>: reading \<^verbatim>\<open>.includes\<close> of a key that
  the object does not have throws a \<^verbatim>\<open>TypeError\<close>.
\<close>

definition pushIfAbsent :: "registry \<Rightarrow> string \<Rightarrow> string \<Rightarrow> js_error + registry" where
  "pushIfAbsent reg key v =
     (case reg key of
        None \<Rightarrow> Inl TypeError
      | Some xs \<Rightarrow> Inr (if v \<in> set xs then reg else reg(key \<mapsto> xs @ [v])))"

definition exploredPush :: "string \<Rightarrow> string \<Rightarrow> unit action" where
  "exploredPush key v = (\<lambda>s.
     case pushIfAbsent (allExploredUrls s) key v of
       Inl e \<Rightarrow> (Inl e, s)
     | Inr reg \<Rightarrow> (Inr (), s\<lparr>allExploredUrls := reg\<rparr>))"

definition servicesPush :: "string \<Rightarrow> string \<Rightarrow> unit action" where
  "servicesPush key v = (\<lambda>s.
     case pushIfAbsent (potentialDifferentServices s) key v of
       Inl e \<Rightarrow> (Inl e, s)
     | Inr reg \<Rightarrow> (Inr (), s\<lparr>potentialDifferentServices := reg\<rparr>))"

definition childrenPush :: "string \<Rightarrow> string \<Rightarrow> unit action" where
  "childrenPush key v = (\<lambda>s.
     case pushIfAbsent (startUrlChildren s) key v of
       Inl e \<Rightarrow> (Inl e, s)
     | Inr reg \<Rightarrow> (Inr (), s\<lparr>startUrlChildren := reg\<rparr>))"

definition addRequests :: "request list \<Rightarrow> unit action" where
  "addRequests rs = (\<lambda>s. (Inr (), s\<lparr>addedRequests := addedRequests s @ rs\<rparr>))"

subsection \<open>The request handler\<close>

text \<open>The request that the handler builds for a discovered URL (label \<^verbatim>\<open>'child'\<close>).\<close>

definition childRequest :: "string \<Rightarrow> string \<Rightarrow> string \<Rightarrow> string \<Rightarrow> request" where
  "childRequest targetUrl url originalDomain companyName =
     \<lparr>req_url = targetUrl,
      userData = \<lparr>ud_label = Some Child, ud_parentUrl = Some url,
                  ud_originalDomain = Some originalDomain,
                  ud_companyName = Some companyName\<rparr>\<rparr>"

text \<open>Lines 215--217: \<^verbatim>\<open>if (!allExploredUrls[url]) allExploredUrls[url] = []\<close>.\<close>

definition initExplored :: "string \<Rightarrow> unit action" where
  "initExplored url = (\<lambda>s.
     (Inr (), if allExploredUrls s url = None
              then s\<lparr>allExploredUrls := (allExploredUrls s)(url \<mapsto> [])\<rparr> else s))"

text \<open>Lines 220--225: a child request is registered under its parent, if the parent has an entry.\<close>

definition trackChild :: "label \<Rightarrow> string option \<Rightarrow> string \<Rightarrow> unit action" where
  "trackChild label parentUrlOpt url = (\<lambda>s.
     case parentUrlOpt of
       None \<Rightarrow> (Inr (), s)
     | Some parentUrl \<Rightarrow>
         if label = Child \<and> parentUrl \<noteq> [] then
           (case startUrlChildren s parentUrl of
              None \<Rightarrow> (Inr (), s)
            | Some xs \<Rightarrow>
                (Inr (), if url \<in> set xs then s
                         else s\<lparr>startUrlChildren := (startUrlChildren s)(parentUrl \<mapsto> xs @ [url])\<rparr>))
         else (Inr (), s))"

text \<open>
  Lines 352--448, one iteration: the links of type \<^verbatim>\<open>href\<close> are skipped; everything
  else happens inside \<^verbatim>\<open>try/catch\<close>. A new page is recorded, and for a start URL also
  registered as a service, enqueued as a child and registered as a child; a navigation of
  the current page is recorded, and for a start URL registered as a service.
\<close>

definition clickElement ::
  "string \<Rightarrow> label \<Rightarrow> string \<Rightarrow> string \<Rightarrow> potential_link \<Rightarrow> unit action" where
  "clickElement url label originalDomain companyName link =
     (if pl_type link = Href then ret ()
      else catching
        (case pl_click link of
           ClickThrew \<Rightarrow> raise AutomationError
         | NewPage newUrl \<Rightarrow>
             if newUrl = url then ret ()
             else
               thenDo (exploredPush url newUrl)
                 (whenDo (label = Start)
                    (thenDo (servicesPush url newUrl)
                    (thenDo (addRequests [childRequest newUrl url originalDomain companyName])
                            (childrenPush url newUrl))))
         | SamePage currentUrl \<Rightarrow>
             whenDo (currentUrl \<noteq> url)
               (thenDo (exploredPush url currentUrl)
                  (whenDo (label = Start) (servicesPush url currentUrl)))))"

text \<open>Lines 451--460: the absolute anchors whose text does not contain the page's hostname.\<close>

definition crossDomainLinks :: "page \<Rightarrow> string list" where
  "crossDomainLinks pg =
     filter (\<lambda>href. href \<noteq> [] \<and> str_includes href ''://''
                     \<and> \<not> str_includes href (locationHostname pg))
       (anchors pg)"

text \<open>Lines 463--500, one iteration; nothing here is inside a \<^verbatim>\<open>try\<close>.\<close>

definition crossDomainLink ::
  "url_parser \<Rightarrow> string \<Rightarrow> string \<Rightarrow> string \<Rightarrow> string \<Rightarrow> unit action" where
  "crossDomainLink parse url originalDomain companyName targetUrl =
     actBind (lift (shouldExcludeUrl parse targetUrl)) (\<lambda>excluded.
       if excluded then ret ()
       else
         (let targetUrlLower = toLowerCase targetUrl;
              containsCompanyName = str_includes targetUrlLower companyName
          in whenDo containsCompanyName
               (thenDo (exploredPush url targetUrl)
               (thenDo (servicesPush url targetUrl)
               (thenDo (addRequests [childRequest targetUrl url originalDomain companyName])
                       (childrenPush url targetUrl))))))"

text \<open>
  Lines 507--544: \<^verbatim>\<open>transformRequestFunction\<close> returns \<^verbatim>\<open>false\<close> (here \<open>None\<close>) to drop a
  link, or the request with its new \<^verbatim>\<open>userData\<close>.
\<close>

definition transformRequestFunction ::
  "url_parser \<Rightarrow> string \<Rightarrow> string \<Rightarrow> string \<Rightarrow> string \<Rightarrow> request option action" where
  "transformRequestFunction parse url originalDomain companyName targetUrl =
     actBind (lift (shouldExcludeUrl parse targetUrl)) (\<lambda>excluded.
       if excluded \<or> targetUrl = url then ret None
       else
         thenDo (exploredPush url targetUrl)
           (actBind (lift (isPotentialDifferentService parse url targetUrl)) (\<lambda>isDifferentService.
            actBind (lift (extractDomain parse url)) (\<lambda>urlDomain.
            actBind (lift (extractDomain parse targetUrl)) (\<lambda>targetDomain.
              (let isDifferentSubdomain = (urlDomain \<noteq> targetDomain)
               in if isDifferentService \<or> isDifferentSubdomain
                  then thenDo (servicesPush url targetUrl)
                         (ret (Some (childRequest targetUrl url originalDomain companyName)))
                  else ret None))))))"

text \<open>
  \<^verbatim>\<open>enqueueLinks\<close> transforms every candidate first and adds the requests that are left
  afterwards; a throw of the transform function leaves the queue as it was.
\<close>

definition enqueueLinks ::
  "url_parser \<Rightarrow> string \<Rightarrow> string \<Rightarrow> string \<Rightarrow> string list \<Rightarrow> unit action" where
  "enqueueLinks parse url originalDomain companyName candidates =
     actBind (mapAction (transformRequestFunction parse url originalDomain companyName) candidates)
       (\<lambda>transformed. addRequests (map the (filter (\<lambda>r. r \<noteq> None) transformed)))"

text \<open>
  The static link phases of the handler (lines 450--546): the cross-domain anchors for
  every request, \<^verbatim>\<open>enqueueLinks\<close> for a start URL only.
\<close>

definition extractLinks ::
  "url_parser \<Rightarrow> string \<Rightarrow> label \<Rightarrow> string \<Rightarrow> string \<Rightarrow> page \<Rightarrow> unit action" where
  "extractLinks parse url label originalDomain companyName pg =
     thenDo (forEach (crossDomainLink parse url originalDomain companyName) (crossDomainLinks pg))
       (whenDo (label = Start)
          (enqueueLinks parse url originalDomain companyName (enqueueCandidates pg)))"

definition labelOf :: "request \<Rightarrow> label" where
  "labelOf request = (case ud_label (userData request) of None \<Rightarrow> Start | Some l \<Rightarrow> l)"

definition companyNameOf :: "request \<Rightarrow> string" where
  "companyNameOf request = (case ud_companyName (userData request) of None \<Rightarrow> [] | Some n \<Rightarrow> n)"

definition originalDomainOf :: "url_parser \<Rightarrow> request \<Rightarrow> js_error + string" where
  "originalDomainOf parse request =
     (case ud_originalDomain (userData request) of
        None \<Rightarrow> extractDomain parse (req_url request)
      | Some d \<Rightarrow> if d \<noteq> [] then Inr d else extractDomain parse (req_url request))"

definition requestHandler :: "url_parser \<Rightarrow> request \<Rightarrow> page \<Rightarrow> unit action" where
  "requestHandler parse request pg =
     (let url = req_url request;
          label = labelOf request;
          companyName = companyNameOf request
      in actBind (lift (originalDomainOf parse request)) (\<lambda>originalDomain.
           thenDo (initExplored url)
          (thenDo (trackChild label (ud_parentUrl (userData request)) url)
          (thenDo (forEach (clickElement url label originalDomain companyName) (potentialLinks pg))
                  (extractLinks parse url label originalDomain companyName pg)))))"

subsection \<open>The run and its results\<close>

text \<open>
  Scheduling belongs to the crawler library: which requests it runs, in which order, how
  often it retries one, and which page each run sees. A run is therefore the list of the
  handler's invocations, each with the request and the page it saw; a throw of the handler
  is logged by \<^verbatim>\<open>failedRequestHandler\<close> and the run goes on.
\<close>

fun crawl :: "url_parser \<Rightarrow> (request \<times> page) list \<Rightarrow> crawl_state \<Rightarrow> crawl_state" where
  "crawl parse [] s = s"
| "crawl parse ((request, pg) # visits) s = crawl parse visits (snd (requestHandler parse request pg s))"

text \<open>Lines 166--174: the registries are reset, with an empty entry per company URL.\<close>

definition initRegistries :: "company list \<Rightarrow> crawl_state" where
  "initRegistries companies =
     \<lparr>potentialDifferentServices = foldl (\<lambda>m c. m(c_url c \<mapsto> [])) Map.empty companies,
      allExploredUrls = Map.empty,
      startUrlChildren = foldl (\<lambda>m c. m(c_url c \<mapsto> [])) Map.empty companies,
      addedRequests = []\<rparr>"

text \<open>Lines 558--568: one request per company, labelled \<^verbatim>\<open>'start'\<close>.\<close>

fun initialRequests :: "url_parser \<Rightarrow> company list \<Rightarrow> js_error + request list" where
  "initialRequests parse [] = Inr []"
| "initialRequests parse (c # cs) =
     andThen (extractDomain parse (c_url c)) (\<lambda>domain.
     andThen (initialRequests parse cs) (\<lambda>rs.
       Inr (\<lparr>req_url = c_url c,
             userData = \<lparr>ud_label = Some Start, ud_parentUrl = None,
                         ud_originalDomain = Some domain,
                         ud_companyName = Some (toLowerCase (c_name c))\<rparr>\<rparr> # rs)))"

record service_result =
  res_url :: string
  res_potentialDifferentServices :: "string list"
  res_allExploredUrls :: "string list"

text \<open>Lines 573--585: \<^verbatim>\<open>reg[startUrl] || []\<close> is the empty array for a missing key.\<close>

definition orEmpty :: "string list option \<Rightarrow> string list" where
  "orEmpty v = (case v of None \<Rightarrow> [] | Some xs \<Rightarrow> xs)"

definition results :: "company list \<Rightarrow> crawl_state \<Rightarrow> service_result list" where
  "results companies s =
     map (\<lambda>c.
       (let startUrl = c_url c;
            filteredServices = filter (\<lambda>serviceUrl. serviceUrl \<noteq> startUrl)
                                 (orEmpty (potentialDifferentServices s startUrl))
        in \<lparr>res_url = startUrl,
            res_potentialDifferentServices = filteredServices,
            res_allExploredUrls = orEmpty (allExploredUrls s startUrl)\<rparr>))
       companies"

definition findCompanyServices ::
  "url_parser \<Rightarrow> company list \<Rightarrow> (request \<times> page) list \<Rightarrow> js_error + service_result list" where
  "findCompanyServices parse companies visits =
     andThen (initialRequests parse companies) (\<lambda>initial.
       Inr (results companies
              (crawl parse visits ((initRegistries companies)\<lparr>addedRequests := initial\<rparr>))))"

section \<open>Vocabulary of the properties\<close>

text \<open>
  The definitions of this section are not part of the program; the properties below are
  stated and proved with them.
\<close>

text \<open>
  \<open>grows s t\<close>: every entry of the three registries of \<open>s\<close> is still in \<open>t\<close>, the
  registries of services and of children have the same keys, and no request handed to
  the crawler was taken back.
\<close>

definition grows :: "crawl_state \<Rightarrow> crawl_state \<Rightarrow> bool" where
  "grows s t \<longleftrightarrow>
     (\<forall>k. entries (allExploredUrls s) k \<subseteq> entries (allExploredUrls t) k) \<and>
     (\<forall>k. entries (potentialDifferentServices s) k \<subseteq> entries (potentialDifferentServices t) k) \<and>
     (\<forall>k. entries (startUrlChildren s) k \<subseteq> entries (startUrlChildren t) k) \<and>
     dom (allExploredUrls s) \<subseteq> dom (allExploredUrls t) \<and>
     dom (potentialDifferentServices t) = dom (potentialDifferentServices s) \<and>
     dom (startUrlChildren t) = dom (startUrlChildren s) \<and>
     set (addedRequests s) \<subseteq> set (addedRequests t)"

definition growing :: "'a action \<Rightarrow> bool" where
  "growing a \<longleftrightarrow> (\<forall>s. grows s (snd (a s)))"

text \<open>\<open>ready url s\<close>: the three registries have an entry for \<open>url\<close>.\<close>

definition ready :: "string \<Rightarrow> crawl_state \<Rightarrow> bool" where
  "ready url s \<longleftrightarrow>
     url \<in> dom (allExploredUrls s) \<and> url \<in> dom (potentialDifferentServices s) \<and>
     url \<in> dom (startUrlChildren s)"

text \<open>
  The four writes that the source repeats for a discovery (lines 384--410 and 474--498):
  explored, service, enqueue as a child, child; and what they leave behind when none throws.
\<close>

definition discover :: "string \<Rightarrow> string \<Rightarrow> string \<Rightarrow> string \<Rightarrow> unit action" where
  "discover url originalDomain companyName target =
     thenDo (exploredPush url target)
       (thenDo (servicesPush url target)
       (thenDo (addRequests [childRequest target url originalDomain companyName])
               (childrenPush url target)))"

definition discovered :: "string \<Rightarrow> string \<Rightarrow> string \<Rightarrow> string \<Rightarrow> crawl_state \<Rightarrow> bool" where
  "discovered url originalDomain companyName target s \<longleftrightarrow>
     target \<in> entries (allExploredUrls s) url \<and>
     target \<in> entries (potentialDifferentServices s) url \<and>
     childRequest target url originalDomain companyName \<in> set (addedRequests s) \<and>
     target \<in> entries (startUrlChildren s) url"

text \<open>The state after the first three phases of the handler, which never throw.\<close>

definition probed :: "request \<Rightarrow> string \<Rightarrow> page \<Rightarrow> crawl_state \<Rightarrow> crawl_state" where
  "probed request originalDomain pg s =
     snd (forEach (clickElement (req_url request) (labelOf request) originalDomain
                     (companyNameOf request))
            (potentialLinks pg)
            (snd (trackChild (labelOf request) (ud_parentUrl (userData request)) (req_url request)
                    (snd (initExplored (req_url request) s)))))"

text \<open>\<open>untouched s t\<close>: nothing was registered as a service or as a child, nothing was enqueued.\<close>

definition untouched :: "crawl_state \<Rightarrow> crawl_state \<Rightarrow> bool" where
  "untouched s t \<longleftrightarrow>
     potentialDifferentServices t = potentialDifferentServices s \<and>
     startUrlChildren t = startUrlChildren s \<and>
     addedRequests t = addedRequests s"

subsection \<open>An example site\<close>

text \<open>
  One company, \<^verbatim>\<open>{name: 'Acme', url: 'https://acme.com/'}\<close>. Its home page has a button
  that opens \<^verbatim>\<open>https://tools.acme.com/\<close> in a new page and an element whose click
  navigates the page itself to \<^verbatim>\<open>/pricing\<close>; the anchors are a same-host link, a link to
  another host that contains the company name, and a link to an excluded host.
  \<open>acmeSeed\<close> is the request that \<^verbatim>\<open>findCompanyServices\<close> builds for the company,
  \<open>acmeStart\<close> the state when the crawl starts, \<open>acmeAfterSeed\<close> the state that the
  handler leaves after the home page, \<open>toolsRequest\<close> the child request it enqueued.
\<close>

definition acme :: company where
  "acme = \<lparr>c_name = ''Acme'', c_url = ''https://acme.com/''\<rparr>"

definition acmeSeed :: request where
  "acmeSeed =
     \<lparr>req_url = ''https://acme.com/'',
      userData = \<lparr>ud_label = Some Start, ud_parentUrl = None,
                  ud_originalDomain = Some ''acme.com'', ud_companyName = Some ''acme''\<rparr>\<rparr>"

definition acmeHome :: page where
  "acmeHome =
     \<lparr>potentialLinks =
        [\<lparr>pl_type = Href, pl_click = ClickThrew\<rparr>,
         \<lparr>pl_type = ButtonElement, pl_click = NewPage ''https://tools.acme.com/''\<rparr>,
         \<lparr>pl_type = Onclick, pl_click = SamePage ''https://acme.com/pricing''\<rparr>],
      anchors = [''https://acme.com/admin'', ''https://status.acme.io/'', ''https://twitter.com/acme''],
      locationHostname = ''acme.com'',
      enqueueCandidates = [''https://acme.com/admin'']\<rparr>"

definition toolsRequest :: request where
  "toolsRequest = childRequest ''https://tools.acme.com/'' ''https://acme.com/'' ''acme.com'' ''acme''"


definition acmeStart :: crawl_state where
  "acmeStart =
     \<lparr>potentialDifferentServices = [''https://acme.com/'' \<mapsto> []],
      allExploredUrls = Map.empty,
      startUrlChildren = [''https://acme.com/'' \<mapsto> []],
      addedRequests = [acmeSeed]\<rparr>"

definition acmeAfterSeed :: crawl_state where
  "acmeAfterSeed =
     \<lparr>potentialDifferentServices =
        [''https://acme.com/'' \<mapsto>
           [''https://tools.acme.com/'', ''https://acme.com/pricing'', ''https://status.acme.io/'']],
      allExploredUrls =
        [''https://acme.com/'' \<mapsto>
           [''https://tools.acme.com/'', ''https://acme.com/pricing'', ''https://status.acme.io/'',
            ''https://acme.com/admin'']],
      startUrlChildren =
        [''https://acme.com/'' \<mapsto> [''https://tools.acme.com/'', ''https://status.acme.io/'']],
      addedRequests =
        [acmeSeed, toolsRequest,
         childRequest ''https://status.acme.io/'' ''https://acme.com/'' ''acme.com'' ''acme'']\<rparr>"



text \<open>Other pages and requests used as concrete inputs.\<close>

definition toolsPortal :: page where
  "toolsPortal =
     \<lparr>potentialLinks = [],
      anchors = [''https://tools.acme.com/help'', ''https://status.acme.io/''],
      locationHostname = ''tools.acme.com'',
      enqueueCandidates = [''https://tools.acme.com/help'']\<rparr>"



definition acmeRedirected :: page where
  "acmeRedirected =
     \<lparr>potentialLinks = [],
      anchors = [''https://acme.com/''],
      locationHostname = ''www.acme.io'',
      enqueueCandidates = []\<rparr>"

section \<open>Properties of the classifier\<close>

subsection \<open>Evaluation rules\<close>

lemmas parseURL_eval =
  parseURL_def validScheme_def afterScheme_def hostOf_def pathOf_def
  schemeOf_def hasSpecialScheme_def isAlpha_def isSchemeChar_def
  specialSchemes_def startsWith_def stripPort_def stripUserinfo_def
  toLowerCase_def lowerChar_def isUpper_def

lemmas hasToolIndicator_eval =
  hasToolIndicator_def filterBoolean_def INTERNAL_TOOL_INDICATORS_def segmentMatches_def
  startsWith_def endsWith_def str_includes_def suffix_to_prefix sublist_Cons_right

lemma andThen_simps [simp]:
  "andThen (Inl e) f = Inl e"
  "andThen (Inr x) f = f x"
  by (simp_all add: andThen_def)

lemma tryCatch_simps [simp]:
  "tryCatch (Inl e) h = h e"
  "tryCatch (Inr x) h = Inr x"
  by (simp_all add: tryCatch_def)

lemma newURL_simps [simp]:
  "parse u = None \<Longrightarrow> newURL parse u = Inl TypeError"
  "parse u = Some p \<Longrightarrow> newURL parse u = Inr p"
  by (simp_all add: newURL_def)

lemma lowerChar_idem: "lowerChar (lowerChar c) = lowerChar c"
  by (cases c) (simp add: lowerChar_def isUpper_def)

lemma toLowerCase_idem: "toLowerCase (toLowerCase s) = toLowerCase s"
  by (simp add: toLowerCase_def lowerChar_idem)

lemma parseURL_special_lowercase:
  assumes "hasSpecialScheme u" and "parseURL u = Some p"
  shows "toLowerCase (hostname p) = hostname p"
  using assms by (auto simp: parseURL_def toLowerCase_idem split: if_splits)

subsection \<open>extractDomain and shouldExcludeUrl never throw\<close>

lemma extractDomain_value:
  "extractDomain parse u = Inr (case parse u of None \<Rightarrow> [] | Some p \<Rightarrow> hostname p)"
  by (cases "parse u") (simp_all add: extractDomain_def)

lemma shouldExcludeUrl_value:
  "shouldExcludeUrl parse u =
     Inr (startsWith u ''mailto:'' \<or> startsWith u ''tel:'' \<or>
          (\<exists>p. parse u = Some p \<and>
               (\<exists>d \<in> set EXCLUDED_DOMAINS. hostname p = d \<or> endsWith (hostname p) (''.'' @ d))))"
proof (cases "parse u")
  case None
  have "\<not> list_ex (\<lambda>d. [] = d \<or> endsWith [] (''.'' @ d)) EXCLUDED_DOMAINS"
    by (simp add: EXCLUDED_DOMAINS_def endsWith_def)
  with None show ?thesis
    by (simp add: shouldExcludeUrl_def extractDomain_value)
next
  case (Some p)
  then show ?thesis
    by (simp add: shouldExcludeUrl_def extractDomain_value list_ex_iff)
qed

lemma shouldExcludeUrl_total: "\<exists>b. shouldExcludeUrl parse u = Inr b"
  by (simp add: shouldExcludeUrl_value)

lemma tryCatch_total:
  assumes "\<And>e. \<exists>b. h e = Inr b"
  shows "\<exists>b. tryCatch m h = Inr b"
  using assms by (cases m) simp_all

lemma isPotentialDifferentService_total:
  "\<exists>b. isPotentialDifferentService parse originalUrl targetUrl = Inr b"
  unfolding isPotentialDifferentService_def by (rule tryCatch_total) (rule exI, rule refl)

text \<open>
  Claim \<^bold>\<open>C9\<close> (as amended). \<^verbatim>\<open>extractDomain\<close> never throws, for any text and whatever the
  parser does with it: it returns the hostname that the parser reports, or the empty
  string when the text does not parse. For a URL with a special scheme (\<^verbatim>\<open>http\<close>,
  \<^verbatim>\<open>https\<close>, \<^verbatim>\<open>ws\<close>, \<^verbatim>\<open>wss\<close>, \<^verbatim>\<open>ftp\<close>, \<^verbatim>\<open>file\<close>), whose host the parser
  lower-cases, the result is lower-case.
\<close>

theorem extractDomain_safe_default:
  "extractDomain parse u = Inr (case parse u of None \<Rightarrow> [] | Some p \<Rightarrow> hostname p)
   \<and> (hasSpecialScheme u \<longrightarrow> (\<exists>d. extractDomain parseURL u = Inr d \<and> toLowerCase d = d))"
proof (intro conjI impI)
  show "extractDomain parse u = Inr (case parse u of None \<Rightarrow> [] | Some p \<Rightarrow> hostname p)"
    by (rule extractDomain_value)
next
  assume special: "hasSpecialScheme u"
  show "\<exists>d. extractDomain parseURL u = Inr d \<and> toLowerCase d = d"
  proof (cases "parseURL u")
    case None
    then show ?thesis
      by (simp add: extractDomain_value toLowerCase_def)
  next
    case (Some p)
    with special show ?thesis
      by (simp add: extractDomain_value parseURL_special_lowercase)
  qed
qed

theorem extractDomain_safe_default_witness:
  "hasSpecialScheme ''HTTPS://Shop.ACME.com/Cart''
   \<and> extractDomain parseURL ''HTTPS://Shop.ACME.com/Cart'' = Inr ''shop.acme.com''
   \<and> toLowerCase ''shop.acme.com'' = ''shop.acme.com''
   \<and> extractDomain parseURL ''not a url'' = Inr []"
proof -
  have special: "hasSpecialScheme ''HTTPS://Shop.ACME.com/Cart''"
    by (simp add: parseURL_eval)
  have parsed: "parseURL ''HTTPS://Shop.ACME.com/Cart''
                = Some \<lparr>hostname = ''shop.acme.com'', pathname = ''/Cart''\<rparr>"
    by (simp add: parseURL_eval)
  have unparsed: "parseURL ''not a url'' = None"
    by (simp add: parseURL_eval)
  have low: "toLowerCase ''shop.acme.com'' = ''shop.acme.com''"
    by (simp add: toLowerCase_def lowerChar_def isUpper_def)
  show ?thesis
    using special low
      extractDomain_safe_default [of parseURL "''HTTPS://Shop.ACME.com/Cart''"]
      extractDomain_safe_default [of parseURL "''not a url''"]
    by (simp add: parsed unparsed)
qed

text \<open>
  Claim \<^bold>\<open>C9\<close> as stated fails: the host of a URL whose scheme is not special is opaque to
  the parser and keeps its capitals, and \<^verbatim>\<open>extractDomain\<close> returns it as it is.
\<close>

theorem extractDomain_lowercase_counterexample:
  "extractDomain parseURL ''foo://EXAMPLE.com/'' = Inr ''EXAMPLE.com''
   \<and> toLowerCase ''EXAMPLE.com'' \<noteq> ''EXAMPLE.com''"
proof -
  have "parseURL ''foo://EXAMPLE.com/'' = Some \<lparr>hostname = ''EXAMPLE.com'', pathname = ''/''\<rparr>"
    by (simp add: parseURL_eval)
  then show ?thesis
    by (simp add: extractDomain_value toLowerCase_def lowerChar_def isUpper_def)
qed

text \<open>
  Claim \<^bold>\<open>C8\<close>. \<^verbatim>\<open>shouldExcludeUrl\<close> never throws, and it answers true exactly when the text
  starts with \<^verbatim>\<open>mailto:\<close> or \<^verbatim>\<open>tel:\<close>, or the text parses and its hostname is an entry
  of \<^verbatim>\<open>EXCLUDED_DOMAINS\<close> or some label sequence followed by a dot and an entry. A text
  that does not parse (and has neither prefix) is never excluded.
\<close>

theorem shouldExcludeUrl_exact:
  "shouldExcludeUrl parse u =
     Inr (prefix ''mailto:'' u \<or> prefix ''tel:'' u \<or>
          (\<exists>p. parse u = Some p \<and>
               (\<exists>d \<in> set EXCLUDED_DOMAINS.
                  hostname p = d \<or> (\<exists>sub. hostname p = sub @ ''.'' @ d))))"
  by (simp add: shouldExcludeUrl_value startsWith_def endsWith_def suffix_def)

subsection \<open>The two classification examples\<close>

lemma hasToolIndicator_root: "\<not> hasToolIndicator ''/''"
  by (simp add: hasToolIndicator_def filterBoolean_def)

lemma toLowerCase_slash: "startsWith p ''/'' \<Longrightarrow> startsWith (toLowerCase p) (toLowerCase ''/'')"
  by (cases p) (simp_all add: startsWith_def toLowerCase_def lowerChar_def isUpper_def)

text \<open>
  With an origin at the root path, no URL on the same host is ever a different service:
  every path is a strict extension of \<^verbatim>\<open>/\<close>, except \<^verbatim>\<open>/\<close> itself, which has no segment.
\<close>

lemma isPotentialDifferentService_root_origin:
  assumes "parse originalUrl = Some po" and "pathname po = ''/''"
    and "parse targetUrl = Some pt" and "hostname pt = hostname po"
    and "startsWith (pathname pt) ''/''"
  shows "isPotentialDifferentService parse originalUrl targetUrl = Inr False"
proof -
  obtain excluded where ex: "shouldExcludeUrl parse targetUrl = Inr excluded"
    using shouldExcludeUrl_total by blast
  have pre: "startsWith (toLowerCase (pathname pt)) (toLowerCase ''/'')"
    using assms(5) by (rule toLowerCase_slash)
  have ne: "hasToolIndicator (toLowerCase (pathname pt)) \<Longrightarrow> toLowerCase (pathname pt) \<noteq> toLowerCase ''/''"
    using hasToolIndicator_root by (auto simp: toLowerCase_def lowerChar_def isUpper_def)
  show ?thesis
    using assms(1-4) ex pre ne
    by (simp add: isPotentialDifferentService_def Let_def)
qed

text \<open>
  Claim \<^bold>\<open>C1\<close> (the code at the claim's input). For origin \<^verbatim>\<open>https://acme.com/\<close> and candidate
  \<^verbatim>\<open>https://acme.com/admin-portal\<close>, parsed as the platform parses them,
  \<^verbatim>\<open>isPotentialDifferentService\<close> returns false: the segment \<^verbatim>\<open>admin-portal\<close> does match
  the indicator \<^verbatim>\<open>admin\<close>, but the path \<^verbatim>\<open>/admin-portal\<close> starts with the origin's path
  \<^verbatim>\<open>/\<close> and differs from it, so the sub-path rule answers false.
\<close>

theorem classify_admin_portal_from_root:
  assumes "parse ''https://acme.com/'' = Some \<lparr>hostname = ''acme.com'', pathname = ''/''\<rparr>"
    and "parse ''https://acme.com/admin-portal'' =
           Some \<lparr>hostname = ''acme.com'', pathname = ''/admin-portal''\<rparr>"
  shows "hasToolIndicator (toLowerCase ''/admin-portal'')
         \<and> isPotentialDifferentService parse ''https://acme.com/'' ''https://acme.com/admin-portal''
             = Inr False"
proof -
  have ex: "shouldExcludeUrl parse ''https://acme.com/admin-portal'' = Inr False"
    using assms(2)
    by (simp add: shouldExcludeUrl_def extractDomain_value EXCLUDED_DOMAINS_def
        startsWith_def endsWith_def suffix_to_prefix)
  have low: "toLowerCase ''/admin-portal'' = ''/admin-portal''" "toLowerCase ''/'' = ''/''"
    by (simp_all add: toLowerCase_def lowerChar_def isUpper_def)
  have ind: "hasToolIndicator ''/admin-portal''"
    by (simp add: hasToolIndicator_eval)
  have pre: "startsWith ''/admin-portal'' ''/''"
    by (simp add: startsWith_def)
  show ?thesis
    using assms ex ind pre
    by (simp add: isPotentialDifferentService_def Let_def low)
qed

theorem classify_admin_portal_from_root_witness:
  "parseURL ''https://acme.com/'' = Some \<lparr>hostname = ''acme.com'', pathname = ''/''\<rparr>
   \<and> parseURL ''https://acme.com/admin-portal'' =
        Some \<lparr>hostname = ''acme.com'', pathname = ''/admin-portal''\<rparr>
   \<and> isPotentialDifferentService parseURL ''https://acme.com/'' ''https://acme.com/admin-portal''
        = Inr False"
proof -
  have a: "parseURL ''https://acme.com/'' = Some \<lparr>hostname = ''acme.com'', pathname = ''/''\<rparr>"
    by (simp add: parseURL_eval)
  have b: "parseURL ''https://acme.com/admin-portal'' =
             Some \<lparr>hostname = ''acme.com'', pathname = ''/admin-portal''\<rparr>"
    by (simp add: parseURL_eval)
  show ?thesis
    using a b classify_admin_portal_from_root [OF a b] by simp
qed











section \<open>Properties of the request handler and of a run\<close>

subsection \<open>The handler only adds\<close>

lemma ret_apply [simp]: "fst (ret x s) = Inr x" "snd (ret x s) = s"
  by (simp_all add: ret_def)

lemma raise_apply [simp]: "fst (raise e s) = Inl e" "snd (raise e s) = s"
  by (simp_all add: raise_def)

lemma lift_simps [simp]: "lift (Inr x) = ret x" "lift (Inl e) = raise e"
  by (simp_all add: lift_def)

lemma actBind_ret [simp]: "actBind (ret x) f = f x"
  by (rule ext) (simp add: actBind_def ret_def)

lemma actBind_raise [simp]: "actBind (raise e) f = raise e"
  by (rule ext) (simp add: actBind_def raise_def)

lemma grows_refl [simp]: "grows s s"
  by (simp add: grows_def)

lemma grows_trans:
  assumes "grows s t" and "grows t u"
  shows "grows s u"
proof -
  have sub: "\<And>f. (\<forall>k. entries (f s) k \<subseteq> entries (f t) k) \<Longrightarrow>
                  (\<forall>k. entries (f t) k \<subseteq> entries (f u) k) \<Longrightarrow>
                  (\<forall>k. entries (f s) k \<subseteq> entries (f u) k)"
    by (meson order_trans)
  from assms show ?thesis
    unfolding grows_def
    by (elim conjE, intro conjI) (erule (1) sub order_trans | simp)+
qed

lemma growingD: "growing a \<Longrightarrow> grows s (snd (a s))"
  by (simp add: growing_def)

lemma growing_ret [simp]: "growing (ret x)"
  by (simp add: growing_def)

lemma growing_raise [simp]: "growing (raise e)"
  by (simp add: growing_def)

lemma growing_lift [simp]: "growing (lift m)"
  by (cases m) simp_all

lemma growing_actBind:
  assumes "growing m" and "\<And>x. growing (f x)"
  shows "growing (actBind m f)"
  unfolding growing_def
proof
  fix s
  obtain r s' where ms: "m s = (r, s')" by (cases "m s")
  have g1: "grows s s'" using growingD [OF assms(1), of s] ms by simp
  show "grows s (snd (actBind m f s))"
  proof (cases r)
    case (Inl e)
    with ms g1 show ?thesis by (simp add: actBind_def)
  next
    case (Inr x)
    have "grows s' (snd (f x s'))" using assms(2) by (rule growingD)
    with g1 have "grows s (snd (f x s'))" by (rule grows_trans)
    with ms Inr show ?thesis by (simp add: actBind_def)
  qed
qed

lemma growing_thenDo: "growing a \<Longrightarrow> growing b \<Longrightarrow> growing (thenDo a b)"
  unfolding thenDo_def by (rule growing_actBind)

lemma growing_whenDo: "growing a \<Longrightarrow> growing (whenDo c a)"
  by (simp add: whenDo_def)

lemma growing_catching: "growing a \<Longrightarrow> growing (catching a)"
  by (simp add: growing_def catching_def)

lemma growing_forEach: "(\<And>x. growing (f x)) \<Longrightarrow> growing (forEach f xs)"
  by (induction xs) (simp_all add: growing_thenDo)

lemma growing_mapAction: "(\<And>x. growing (f x)) \<Longrightarrow> growing (mapAction f xs)"
  by (induction xs) (simp_all add: growing_actBind)

lemma growing_exploredPush: "growing (exploredPush key v)"
  unfolding growing_def
proof
  fix s
  show "grows s (snd (exploredPush key v s))"
    by (cases "allExploredUrls s key")
       (auto simp: exploredPush_def pushIfAbsent_def grows_def entries_def)
qed

lemma growing_servicesPush: "growing (servicesPush key v)"
  unfolding growing_def
proof
  fix s
  show "grows s (snd (servicesPush key v s))"
    by (cases "potentialDifferentServices s key")
       (auto simp: servicesPush_def pushIfAbsent_def grows_def entries_def)
qed

lemma growing_childrenPush: "growing (childrenPush key v)"
  unfolding growing_def
proof
  fix s
  show "grows s (snd (childrenPush key v s))"
    by (cases "startUrlChildren s key")
       (auto simp: childrenPush_def pushIfAbsent_def grows_def entries_def)
qed

lemma growing_addRequests: "growing (addRequests rs)"
  by (simp add: growing_def addRequests_def grows_def)

lemma growing_initExplored: "growing (initExplored url)"
  by (auto simp: growing_def initExplored_def grows_def entries_def)

lemma growing_trackChild: "growing (trackChild label parentUrlOpt url)"
  by (auto simp: growing_def trackChild_def grows_def entries_def split: option.splits)

lemmas growing_intros =
  growing_actBind growing_thenDo growing_whenDo growing_catching growing_forEach
  growing_mapAction growing_exploredPush growing_servicesPush growing_childrenPush
  growing_addRequests growing_initExplored growing_trackChild growing_ret growing_raise
  growing_lift

lemma growing_clickElement: "growing (clickElement url label originalDomain companyName link)"
  unfolding clickElement_def
  by (cases "pl_click link") (auto intro!: growing_intros)

lemma growing_crossDomainLink: "growing (crossDomainLink parse url originalDomain companyName targetUrl)"
  unfolding crossDomainLink_def Let_def
  by (auto intro!: growing_intros)

lemma growing_transformRequestFunction:
  "growing (transformRequestFunction parse url originalDomain companyName targetUrl)"
  unfolding transformRequestFunction_def Let_def
  by (auto intro!: growing_intros)

lemma growing_enqueueLinks: "growing (enqueueLinks parse url originalDomain companyName candidates)"
  unfolding enqueueLinks_def
  by (intro growing_intros growing_transformRequestFunction)

lemma growing_extractLinks: "growing (extractLinks parse url label originalDomain companyName pg)"
  unfolding extractLinks_def
  by (intro growing_intros growing_crossDomainLink growing_enqueueLinks)

lemma growing_requestHandler: "growing (requestHandler parse request pg)"
  unfolding requestHandler_def Let_def
  by (intro growing_intros growing_clickElement growing_extractLinks)


lemma ready_grows: "ready url s \<Longrightarrow> grows s t \<Longrightarrow> ready url t"
  unfolding ready_def grows_def by blast

lemma explored_grows:
  "grows s t \<Longrightarrow> v \<in> entries (allExploredUrls s) k \<Longrightarrow> v \<in> entries (allExploredUrls t) k"
  unfolding grows_def by blast

lemma services_grows:
  "grows s t \<Longrightarrow> v \<in> entries (potentialDifferentServices s) k
   \<Longrightarrow> v \<in> entries (potentialDifferentServices t) k"
  unfolding grows_def by blast

lemma children_grows:
  "grows s t \<Longrightarrow> v \<in> entries (startUrlChildren s) k \<Longrightarrow> v \<in> entries (startUrlChildren t) k"
  unfolding grows_def by blast

lemma added_grows:
  "grows s t \<Longrightarrow> r \<in> set (addedRequests s) \<Longrightarrow> r \<in> set (addedRequests t)"
  unfolding grows_def by blast

lemma thenDo_Inr: "fst (a s) = Inr () \<Longrightarrow> thenDo a b s = b (snd (a s))"
  by (cases "a s") (simp add: thenDo_def actBind_def)

lemma thenDo_Inl: "fst (a s) = Inl e \<Longrightarrow> thenDo a b s = (Inl e, snd (a s))"
  by (cases "a s") (simp add: thenDo_def actBind_def)

lemma catching_completes [simp]: "fst (catching a s) = Inr ()"
  by (simp add: catching_def)

lemma clickElement_completes [simp]:
  "fst (clickElement url label originalDomain companyName link s) = Inr ()"
  by (simp add: clickElement_def)

lemma forEach_Cons_Inr:
  "fst (f x s) = Inr () \<Longrightarrow> forEach f (x # xs) s = forEach f xs (snd (f x s))"
  by (cases "f x s") (simp add: thenDo_def actBind_def)

lemma forEach_Cons_Inl:
  "fst (f x s) = Inl e \<Longrightarrow> forEach f (x # xs) s = (Inl e, snd (f x s))"
  by (cases "f x s") (simp add: thenDo_def actBind_def)

lemma forEach_preserves:
  assumes "\<And>y s. y \<in> set xs \<Longrightarrow> Q s \<Longrightarrow> Q (snd (f y s))" and "Q s"
  shows "Q (snd (forEach f xs s))"
  using assms
proof (induction xs arbitrary: s)
  case Nil
  then show ?case by simp
next
  case (Cons x xs)
  have qx: "Q (snd (f x s))" using Cons.prems by simp
  show ?case
  proof (cases "fst (f x s)")
    case (Inl e)
    then show ?thesis using qx by (simp only: forEach_Cons_Inl [of f x s e xs] snd_conv)
  next
    case (Inr u)
    then have c: "fst (f x s) = Inr ()" by simp
    have "Q (snd (forEach f xs (snd (f x s))))"
      using Cons.prems(1) qx by (intro Cons.IH) simp_all
    then show ?thesis by (simp only: forEach_Cons_Inr [of f x s xs, OF c])
  qed
qed

lemma forEach_invariant:
  assumes "\<And>x s. x \<in> set xs \<Longrightarrow> I s \<Longrightarrow> fst (f x s) = Inr () \<and> I (snd (f x s))"
    and "I s"
  shows "fst (forEach f xs s) = Inr () \<and> I (snd (forEach f xs s))"
  using assms
proof (induction xs arbitrary: s)
  case Nil
  then show ?case by simp
next
  case (Cons x xs)
  have step: "fst (f x s) = Inr ()" "I (snd (f x s))"
    using Cons.prems by simp_all
  have "fst (forEach f xs (snd (f x s))) = Inr () \<and> I (snd (forEach f xs (snd (f x s))))"
    using Cons.prems(1) step(2) by (intro Cons.IH) simp_all
  then show ?case
    by (simp only: forEach_Cons_Inr [of f x s xs, OF step(1)])
qed

lemma forEach_reaches:
  assumes "x \<in> set xs"
    and "\<And>y s. y \<in> set xs \<Longrightarrow> I s \<Longrightarrow> fst (f y s) = Inr () \<and> I (snd (f y s))"
    and "\<And>s. I s \<Longrightarrow> Q (snd (f x s))"
    and "\<And>y s. y \<in> set xs \<Longrightarrow> Q s \<Longrightarrow> Q (snd (f y s))"
    and "I s"
  shows "Q (snd (forEach f xs s))"
  using assms
proof (induction xs arbitrary: s)
  case Nil
  then show ?case by simp
next
  case (Cons y ys)
  have step: "fst (f y s) = Inr ()" "I (snd (f y s))"
    using Cons.prems(2,5) by simp_all
  show ?case
  proof (cases "x = y")
    case True
    have here: "Q (snd (f y s))" using Cons.prems(3,5) True by simp
    have "Q (snd (forEach f ys (snd (f y s))))"
    proof (rule forEach_preserves [where xs = ys and Q = Q and f = f])
      show "Q (snd (f y s))" by (rule here)
      show "\<And>z t. z \<in> set ys \<Longrightarrow> Q t \<Longrightarrow> Q (snd (f z t))"
        using Cons.prems(4) by simp
    qed
    then show ?thesis
      by (simp only: forEach_Cons_Inr [of f y s ys, OF step(1)])
  next
    case False
    then have "x \<in> set ys" using Cons.prems(1) by simp
    then have "Q (snd (forEach f ys (snd (f y s))))"
      using Cons.prems(2,3,4) step(2) by (intro Cons.IH) simp_all
    then show ?thesis
      by (simp only: forEach_Cons_Inr [of f y s ys, OF step(1)])
  qed
qed

lemma exploredPush_ready:
  assumes "key \<in> dom (allExploredUrls s)"
  shows "fst (exploredPush key v s) = Inr ()"
    and "v \<in> entries (allExploredUrls (snd (exploredPush key v s))) key"
  using assms by (auto simp: exploredPush_def pushIfAbsent_def entries_def)

lemma servicesPush_ready:
  assumes "key \<in> dom (potentialDifferentServices s)"
  shows "fst (servicesPush key v s) = Inr ()"
    and "v \<in> entries (potentialDifferentServices (snd (servicesPush key v s))) key"
  using assms by (auto simp: servicesPush_def pushIfAbsent_def entries_def)

lemma childrenPush_ready:
  assumes "key \<in> dom (startUrlChildren s)"
  shows "fst (childrenPush key v s) = Inr ()"
    and "v \<in> entries (startUrlChildren (snd (childrenPush key v s))) key"
  using assms by (auto simp: childrenPush_def pushIfAbsent_def entries_def)

lemma addRequests_adds:
  "fst (addRequests rs s) = Inr ()" "set rs \<subseteq> set (addedRequests (snd (addRequests rs s)))"
  by (simp_all add: addRequests_def)

lemma discovered_grows:
  "discovered url od cn target s \<Longrightarrow> grows s t \<Longrightarrow> discovered url od cn target t"
  unfolding discovered_def
  by (blast intro: explored_grows services_grows children_grows added_grows)

lemma discover_ready:
  assumes "ready url s"
  shows "fst (discover url od cn target s) = Inr ()"
    and "discovered url od cn target (snd (discover url od cn target s))"
proof -
  let ?r = "childRequest target url od cn"
  let ?s1 = "snd (exploredPush url target s)"
  let ?s2 = "snd (servicesPush url target ?s1)"
  let ?s3 = "snd (addRequests [?r] ?s2)"
  let ?s4 = "snd (childrenPush url target ?s3)"
  have g1: "grows s ?s1" by (rule growingD [OF growing_exploredPush])
  have g2: "grows ?s1 ?s2" by (rule growingD [OF growing_servicesPush])
  have g3: "grows ?s2 ?s3" by (rule growingD [OF growing_addRequests])
  have g4: "grows ?s3 ?s4" by (rule growingD [OF growing_childrenPush])
  have r1: "ready url ?s1" using assms g1 by (rule ready_grows)
  have r2: "ready url ?s2" using r1 g2 by (rule ready_grows)
  have r3: "ready url ?s3" using r2 g3 by (rule ready_grows)
  have c1: "fst (exploredPush url target s) = Inr ()"
    using assms by (intro exploredPush_ready) (simp add: ready_def)
  have c2: "fst (servicesPush url target ?s1) = Inr ()"
    using r1 by (intro servicesPush_ready) (simp add: ready_def)
  have c3: "fst (addRequests [?r] ?s2) = Inr ()" by (rule addRequests_adds)
  have c4: "fst (childrenPush url target ?s3) = Inr ()"
    using r3 by (intro childrenPush_ready) (simp add: ready_def)
  have run: "discover url od cn target s = childrenPush url target ?s3"
    unfolding discover_def
    by (simp only: thenDo_Inr [of "exploredPush url target" s, OF c1]
        thenDo_Inr [of "servicesPush url target" ?s1, OF c2]
        thenDo_Inr [of "addRequests [?r]" ?s2, OF c3])
  show "fst (discover url od cn target s) = Inr ()"
    by (simp only: run c4)
  have e: "target \<in> entries (allExploredUrls ?s1) url"
    using assms by (intro exploredPush_ready) (simp add: ready_def)
  have p: "target \<in> entries (potentialDifferentServices ?s2) url"
    using r1 by (intro servicesPush_ready) (simp add: ready_def)
  have a: "?r \<in> set (addedRequests ?s3)"
    using addRequests_adds(2) [of "[?r]" ?s2] by simp
  have c: "target \<in> entries (startUrlChildren ?s4) url"
    using r3 by (intro childrenPush_ready) (simp add: ready_def)
  have "discovered url od cn target ?s4"
    unfolding discovered_def
    using e p a c g2 g3 g4
    by (meson explored_grows services_grows added_grows)
  then show "discovered url od cn target (snd (discover url od cn target s))"
    by (simp only: run)
qed

lemma snd_catching [simp]: "snd (catching a s) = snd (a s)"
  by (simp add: catching_def)





lemma crossDomainLink_cases:
  "crossDomainLink parse url od cn t =
     (case shouldExcludeUrl parse t of
        Inl e \<Rightarrow> raise e
      | Inr excluded \<Rightarrow>
          if \<not> excluded \<and> str_includes (toLowerCase t) cn then discover url od cn t else ret ())"
  by (cases "shouldExcludeUrl parse t")
     (simp_all add: crossDomainLink_def discover_def whenDo_def Let_def)

lemma crossDomainLink_ready:
  assumes "ready url s"
  shows "fst (crossDomainLink parse url od cn t s) = Inr ()"
  using shouldExcludeUrl_total [of parse t] discover_ready(1) [OF assms]
  by (auto simp: crossDomainLink_cases)

lemma crossDomainLink_discovers:
  assumes "ready url s" and "shouldExcludeUrl parse t = Inr False"
    and "str_includes (toLowerCase t) cn"
  shows "discovered url od cn t (snd (crossDomainLink parse url od cn t s))"
  using discover_ready(2) [OF assms(1)] assms(2,3)
  by (simp add: crossDomainLink_cases)

lemma transformRequestFunction_cases:
  assumes "shouldExcludeUrl parse t = Inr excluded"
  shows "transformRequestFunction parse url od cn t =
     (if excluded \<or> t = url then ret None
      else thenDo (exploredPush url t)
             (if (isPotentialDifferentService parse url t = Inr True)
                 \<or> extractDomain parse url \<noteq> extractDomain parse t
              then thenDo (servicesPush url t) (ret (Some (childRequest t url od cn)))
              else ret None))"
proof -
  obtain d where d: "isPotentialDifferentService parse url t = Inr d"
    using isPotentialDifferentService_total by blast
  show ?thesis
    using assms d
    by (simp add: transformRequestFunction_def extractDomain_value Let_def)
qed

lemma transformRequestFunction_ready:
  assumes "ready url s"
  shows "\<exists>r. fst (transformRequestFunction parse url od cn t s) = Inr r"
proof -
  obtain excluded where ex: "shouldExcludeUrl parse t = Inr excluded"
    using shouldExcludeUrl_total by blast
  let ?s1 = "snd (exploredPush url t s)"
  have c1: "fst (exploredPush url t s) = Inr ()"
    using assms by (intro exploredPush_ready) (simp add: ready_def)
  have "ready url ?s1"
    using assms growingD [OF growing_exploredPush] by (rule ready_grows)
  then have c2: "fst (servicesPush url t ?s1) = Inr ()"
    by (intro servicesPush_ready) (simp add: ready_def)
  show ?thesis
    unfolding transformRequestFunction_cases [OF ex]
    using c2
    by (simp add: thenDo_Inr [of "exploredPush url t" s, OF c1]
        thenDo_Inr [of "servicesPush url t" ?s1, OF c2])
qed



lemma mapAction_Cons_Inr:
  "fst (f x s) = Inr y \<Longrightarrow>
   mapAction f (x # xs) s = actBind (mapAction f xs) (\<lambda>ys. ret (y # ys)) (snd (f x s))"
  by (cases "f x s") (simp add: actBind_def)


lemma snd_actBind_ret [simp]: "snd (actBind m (\<lambda>x. ret (g x)) s) = snd (m s)"
  by (cases "m s") (auto simp: actBind_def split: sum.splits)

lemma fst_actBind_ret: "fst (m s) = Inr x \<Longrightarrow> fst (actBind m (\<lambda>x. ret (g x)) s) = Inr (g x)"
  by (cases "m s") (auto simp: actBind_def)


lemma mapAction_invariant:
  assumes "\<And>x s. x \<in> set xs \<Longrightarrow> I s \<Longrightarrow> (\<exists>y. fst (f x s) = Inr y) \<and> I (snd (f x s))"
    and "I s"
  shows "(\<exists>ys. fst (mapAction f xs s) = Inr ys) \<and> I (snd (mapAction f xs s))"
  using assms
proof (induction xs arbitrary: s)
  case Nil
  then show ?case by simp
next
  case (Cons x xs)
  obtain y where y: "fst (f x s) = Inr y" using Cons.prems by auto
  have i: "I (snd (f x s))" using Cons.prems by simp
  have "(\<exists>ys. fst (mapAction f xs (snd (f x s))) = Inr ys) \<and> I (snd (mapAction f xs (snd (f x s))))"
    using Cons.prems(1) i by (intro Cons.IH) simp_all
  then obtain ys where ys: "fst (mapAction f xs (snd (f x s))) = Inr ys"
    and i': "I (snd (mapAction f xs (snd (f x s))))" by blast
  have "fst (mapAction f (x # xs) s) = Inr (y # ys)"
    by (simp only: mapAction_Cons_Inr [of f x s y xs, OF y]
        fst_actBind_ret [of "mapAction f xs" "snd (f x s)" ys "\<lambda>ys. y # ys", OF ys])
  moreover have "I (snd (mapAction f (x # xs) s))"
    using i' by (simp only: mapAction_Cons_Inr [of f x s y xs, OF y] snd_actBind_ret)
  ultimately show ?case by blast
qed


subsection \<open>The phases of the handler\<close>

lemma originalDomainOf_total: "\<exists>d. originalDomainOf parse request = Inr d"
  by (simp add: originalDomainOf_def extractDomain_value split: option.splits)

lemma initExplored_completes [simp]: "fst (initExplored url s) = Inr ()"
  by (simp add: initExplored_def)

lemma trackChild_completes [simp]: "fst (trackChild label parentUrlOpt url s) = Inr ()"
  by (simp add: trackChild_def split: option.splits)

lemma forEach_click_completes [simp]:
  "fst (forEach (clickElement url label od cn) links s) = Inr ()"
  using forEach_invariant [where I = "\<lambda>_. True" and f = "clickElement url label od cn" and xs = links]
  by simp

lemma requestHandler_phases:
  assumes "originalDomainOf parse request = Inr od"
  shows "requestHandler parse request pg s =
           extractLinks parse (req_url request) (labelOf request) od (companyNameOf request) pg
             (probed request od pg s)"
  using assms
  by (simp add: requestHandler_def Let_def probed_def thenDo_Inr)

lemma initExplored_key: "url \<in> dom (allExploredUrls (snd (initExplored url s)))"
  by (auto simp: initExplored_def)

lemma ready_after_init:
  assumes "url \<in> dom (potentialDifferentServices s)" and "url \<in> dom (startUrlChildren s)"
  shows "ready url (snd (initExplored url s))"
  using assms initExplored_key [of url s] growingD [OF growing_initExplored, of s url]
  unfolding ready_def grows_def by simp

lemma ready_before_probing:
  assumes "req_url request \<in> dom (potentialDifferentServices s)"
    and "req_url request \<in> dom (startUrlChildren s)"
  shows "ready (req_url request)
           (snd (trackChild (labelOf request) (ud_parentUrl (userData request)) (req_url request)
                   (snd (initExplored (req_url request) s))))"
  using ready_after_init [OF assms] growingD [OF growing_trackChild]
  by (rule ready_grows)

lemma ready_probed:
  assumes "req_url request \<in> dom (potentialDifferentServices s)"
    and "req_url request \<in> dom (startUrlChildren s)"
  shows "ready (req_url request) (probed request od pg s)"
  unfolding probed_def
  using ready_before_probing [OF assms] growingD [OF growing_forEach]
  by (rule ready_grows) (rule growing_clickElement)






subsection \<open>Link extraction on a registered URL\<close>

lemma cross_step_ready:
  assumes "ready url s"
  shows "fst (crossDomainLink parse url od cn t s) = Inr ()
         \<and> ready url (snd (crossDomainLink parse url od cn t s))"
  using crossDomainLink_ready [OF assms]
    ready_grows [OF assms growingD [OF growing_crossDomainLink]]
  by simp

lemma cross_loop_ready:
  assumes "ready url s"
  shows "fst (forEach (crossDomainLink parse url od cn) ts s) = Inr ()
         \<and> ready url (snd (forEach (crossDomainLink parse url od cn) ts s))"
proof (rule forEach_invariant [where I = "ready url"])
  show "ready url s" by (rule assms)
next
  fix x and t :: crawl_state assume "ready url t"
  then show "fst (crossDomainLink parse url od cn x t) = Inr ()
             \<and> ready url (snd (crossDomainLink parse url od cn x t))"
    by (rule cross_step_ready)
qed

lemma cross_loop_discovers:
  assumes "ready url s" and "t \<in> set ts" and "shouldExcludeUrl parse t = Inr False"
    and "str_includes (toLowerCase t) cn"
  shows "discovered url od cn t (snd (forEach (crossDomainLink parse url od cn) ts s))"
proof (rule forEach_reaches [where I = "ready url" and x = t])
  show "t \<in> set ts" by (rule assms(2))
  show "ready url s" by (rule assms(1))
next
  fix y and u :: crawl_state assume "ready url u"
  then show "fst (crossDomainLink parse url od cn y u) = Inr ()
             \<and> ready url (snd (crossDomainLink parse url od cn y u))"
    by (rule cross_step_ready)
next
  fix u :: crawl_state assume "ready url u"
  then show "discovered url od cn t (snd (crossDomainLink parse url od cn t u))"
    using assms(3,4) by (rule crossDomainLink_discovers)
next
  fix y and u :: crawl_state assume "discovered url od cn t u"
  then show "discovered url od cn t (snd (crossDomainLink parse url od cn y u))"
    using growingD [OF growing_crossDomainLink] by (rule discovered_grows)
qed

lemma transform_step_ready:
  assumes "ready url s"
  shows "(\<exists>r. fst (transformRequestFunction parse url od cn t s) = Inr r)
         \<and> ready url (snd (transformRequestFunction parse url od cn t s))"
  using transformRequestFunction_ready [OF assms]
    ready_grows [OF assms growingD [OF growing_transformRequestFunction]]
  by simp

lemma enqueueLinks_ready:
  assumes "ready url s"
  shows "fst (enqueueLinks parse url od cn cands s) = Inr ()"
proof -
  have "(\<exists>ys. fst (mapAction (transformRequestFunction parse url od cn) cands s) = Inr ys)
        \<and> ready url (snd (mapAction (transformRequestFunction parse url od cn) cands s))"
  proof (rule mapAction_invariant [where I = "ready url"])
    show "ready url s" by (rule assms)
  next
    fix x and t :: crawl_state assume "ready url t"
    then show "(\<exists>r. fst (transformRequestFunction parse url od cn x t) = Inr r)
               \<and> ready url (snd (transformRequestFunction parse url od cn x t))"
      by (rule transform_step_ready)
  qed
  then obtain ys where "fst (mapAction (transformRequestFunction parse url od cn) cands s) = Inr ys"
    by blast
  then show ?thesis
    by (cases "mapAction (transformRequestFunction parse url od cn) cands s")
       (simp add: enqueueLinks_def actBind_def addRequests_def)
qed


lemma extractLinks_Start:
  assumes "ready url s"
  shows "extractLinks parse url Start od cn pg s =
           enqueueLinks parse url od cn (enqueueCandidates pg)
             (snd (forEach (crossDomainLink parse url od cn) (crossDomainLinks pg) s))"
  using cross_loop_ready [OF assms, of parse od cn "crossDomainLinks pg"]
  by (simp add: extractLinks_def whenDo_def thenDo_Inr)

lemma extractLinks_Start_completes:
  assumes "ready url s"
  shows "fst (extractLinks parse url Start od cn pg s) = Inr ()"
  using cross_loop_ready [OF assms, of parse od cn "crossDomainLinks pg"]
  by (simp add: extractLinks_Start [OF assms] enqueueLinks_ready)

lemma extractLinks_Start_discovers:
  assumes "ready url s" and "t \<in> set (crossDomainLinks pg)"
    and "shouldExcludeUrl parse t = Inr False" and "str_includes (toLowerCase t) cn"
  shows "discovered url od cn t (snd (extractLinks parse url Start od cn pg s))"
  unfolding extractLinks_Start [OF assms(1)]
  using cross_loop_discovers [OF assms] growingD [OF growing_enqueueLinks]
  by (rule discovered_grows)


lemma untouched_refl [simp]: "untouched s s"
  by (simp add: untouched_def)

lemma untouched_trans: "untouched s t \<Longrightarrow> untouched t u \<Longrightarrow> untouched s u"
  by (simp add: untouched_def)

lemma discover_unregistered:
  assumes "url \<notin> dom (potentialDifferentServices s)"
  shows "fst (discover url od cn t s) = Inl TypeError"
    and "untouched s (snd (discover url od cn t s))"
  using assms
  by (cases "allExploredUrls s url";
      simp add: discover_def thenDo_def actBind_def exploredPush_def servicesPush_def
        pushIfAbsent_def untouched_def domIff)+

lemma crossDomainLink_unregistered:
  assumes "url \<notin> dom (potentialDifferentServices s)"
  shows "untouched s (snd (crossDomainLink parse url od cn t s))"
    and "fst (crossDomainLink parse url od cn t s) = Inr ()
         \<or> fst (crossDomainLink parse url od cn t s) = Inl TypeError"
  using shouldExcludeUrl_total [of parse t] discover_unregistered [OF assms]
  by (auto simp: crossDomainLink_cases)

lemma crossDomainLink_throws:
  assumes "url \<notin> dom (potentialDifferentServices s)"
    and "shouldExcludeUrl parse t = Inr False" and "str_includes (toLowerCase t) cn"
  shows "fst (crossDomainLink parse url od cn t s) = Inl TypeError"
  using discover_unregistered(1) [OF assms(1)] assms(2,3)
  by (simp add: crossDomainLink_cases)

lemma cross_loop_unregistered:
  assumes "url \<notin> dom (potentialDifferentServices s)"
  shows "untouched s (snd (forEach (crossDomainLink parse url od cn) ts s))"
proof (rule forEach_preserves [where Q = "untouched s"])
  show "untouched s s" by simp
next
  fix y and t :: crawl_state assume st: "untouched s t"
  then have "url \<notin> dom (potentialDifferentServices t)"
    using assms by (simp add: untouched_def)
  then have "untouched t (snd (crossDomainLink parse url od cn y t))"
    by (rule crossDomainLink_unregistered)
  with st show "untouched s (snd (crossDomainLink parse url od cn y t))"
    by (rule untouched_trans)
qed

lemma cross_loop_throws:
  assumes "url \<notin> dom (potentialDifferentServices s)" and "t \<in> set ts"
    and "shouldExcludeUrl parse t = Inr False" and "str_includes (toLowerCase t) cn"
  shows "fst (forEach (crossDomainLink parse url od cn) ts s) = Inl TypeError"
  using assms(1,2)
proof (induction ts arbitrary: s)
  case Nil
  then show ?case by simp
next
  case (Cons y ys)
  let ?f = "crossDomainLink parse url od cn"
  from crossDomainLink_unregistered(2) [OF Cons.prems(1), of parse od cn y]
  show ?case
  proof
    assume ok: "fst (?f y s) = Inr ()"
    have "y \<noteq> t"
      using ok crossDomainLink_throws [OF Cons.prems(1) assms(3,4), of od] by auto
    then have "t \<in> set ys" using Cons.prems(2) by simp
    moreover have "url \<notin> dom (potentialDifferentServices (snd (?f y s)))"
      using crossDomainLink_unregistered(1) [OF Cons.prems(1), of parse od cn y] Cons.prems(1)
      by (simp add: untouched_def)
    ultimately have "fst (forEach ?f ys (snd (?f y s))) = Inl TypeError"
      by (intro Cons.IH)
    then show ?thesis
      by (simp only: forEach_Cons_Inr [of ?f y s ys, OF ok])
  next
    assume "fst (?f y s) = Inl TypeError"
    then show ?thesis
      by (simp only: forEach_Cons_Inl [of ?f y s TypeError ys] fst_conv)
  qed
qed

lemma thenDo_ret: "thenDo a (ret ()) = a"
proof (rule ext)
  fix s
  obtain r s' where "a s = (r, s')" by (cases "a s")
  then show "thenDo a (ret ()) s = a s"
    by (cases r) (simp_all add: thenDo_def actBind_def ret_def)
qed

lemma extractLinks_Child:
  "extractLinks parse url Child od cn pg =
     forEach (crossDomainLink parse url od cn) (crossDomainLinks pg)"
  by (simp add: extractLinks_def whenDo_def thenDo_ret)

lemma clickElement_unregistered:
  assumes "url \<notin> dom (potentialDifferentServices s)"
  shows "untouched s (snd (clickElement url label od cn link s))"
proof (cases "allExploredUrls s url")
  case None
  then show ?thesis
    by (cases "pl_click link")
       (simp_all add: clickElement_def thenDo_def actBind_def exploredPush_def
          pushIfAbsent_def whenDo_def raise_def ret_def)
next
  case (Some xs)
  with assms show ?thesis
    by (cases "pl_click link"; cases label)
       (simp_all add: clickElement_def thenDo_def actBind_def exploredPush_def servicesPush_def
          pushIfAbsent_def whenDo_def raise_def ret_def untouched_def domIff)
qed

lemma probed_unregistered:
  assumes "req_url request \<notin> dom (potentialDifferentServices s)"
  shows "potentialDifferentServices (probed request od pg s) = potentialDifferentServices s"
    and "addedRequests (probed request od pg s) = addedRequests s"
proof -
  let ?url = "req_url request"
  let ?s2 = "snd (trackChild (labelOf request) (ud_parentUrl (userData request)) ?url
                    (snd (initExplored ?url s)))"
  let ?Q = "\<lambda>t. potentialDifferentServices t = potentialDifferentServices s
                \<and> addedRequests t = addedRequests s"
  have start: "?Q ?s2"
    by (simp add: initExplored_def trackChild_def split: option.splits)
  have "?Q (probed request od pg s)"
    unfolding probed_def
  proof (rule forEach_preserves [where Q = ?Q])
    show "?Q ?s2" by (rule start)
  next
    fix y and t :: crawl_state assume q: "?Q t"
    then have "?url \<notin> dom (potentialDifferentServices t)" using assms by simp
    then have "untouched t (snd (clickElement ?url (labelOf request) od (companyNameOf request) y t))"
      by (rule clickElement_unregistered)
    with q show "?Q (snd (clickElement ?url (labelOf request) od (companyNameOf request) y t))"
      by (simp add: untouched_def)
  qed
  then show "potentialDifferentServices (probed request od pg s) = potentialDifferentServices s"
    and "addedRequests (probed request od pg s) = addedRequests s"
    by simp_all
qed

lemma requestHandler_unregistered:
  assumes "req_url request \<notin> dom (potentialDifferentServices s)"
    and "t \<in> set (crossDomainLinks pg)"
    and "shouldExcludeUrl parse t = Inr False"
    and "str_includes (toLowerCase t) (companyNameOf request)"
  shows "fst (requestHandler parse request pg s) = Inl TypeError"
    and "addedRequests (snd (requestHandler parse request pg s)) = addedRequests s"
    and "potentialDifferentServices (snd (requestHandler parse request pg s))
           = potentialDifferentServices s"
proof -
  obtain od where od: "originalDomainOf parse request = Inr od"
    using originalDomainOf_total by blast
  let ?url = "req_url request"
  let ?cn = "companyNameOf request"
  let ?p = "probed request od pg s"
  let ?loop = "forEach (crossDomainLink parse ?url od ?cn) (crossDomainLinks pg)"
  have un: "?url \<notin> dom (potentialDifferentServices ?p)"
    using assms(1) probed_unregistered(1) [OF assms(1), of od pg] by simp
  have thr: "fst (?loop ?p) = Inl TypeError"
    using un assms(2-4) by (rule cross_loop_throws)
  have run: "requestHandler parse request pg s = (Inl TypeError, snd (?loop ?p))"
    unfolding requestHandler_phases [OF od] extractLinks_def
    by (rule thenDo_Inl [of ?loop ?p TypeError, OF thr])
  have fr: "untouched ?p (snd (?loop ?p))"
    using un by (rule cross_loop_unregistered)
  show "fst (requestHandler parse request pg s) = Inl TypeError"
    by (simp add: run)
  show "addedRequests (snd (requestHandler parse request pg s)) = addedRequests s"
    using fr probed_unregistered(2) [OF assms(1), of od pg] by (simp add: run untouched_def)
  show "potentialDifferentServices (snd (requestHandler parse request pg s))
          = potentialDifferentServices s"
    using fr probed_unregistered(1) [OF assms(1), of od pg] by (simp add: run untouched_def)
qed

subsection \<open>The handler on a start URL with registry entries\<close>

lemma requestHandler_seed_completes:
  assumes "labelOf request = Start"
    and "req_url request \<in> dom (potentialDifferentServices s)"
    and "req_url request \<in> dom (startUrlChildren s)"
  shows "fst (requestHandler parse request pg s) = Inr ()"
proof -
  obtain od where od: "originalDomainOf parse request = Inr od"
    using originalDomainOf_total by blast
  show ?thesis
    unfolding requestHandler_phases [OF od] assms(1)
    by (rule extractLinks_Start_completes) (rule ready_probed [OF assms(2,3)])
qed





lemma requestHandler_seed_cross_domain:
  assumes "labelOf request = Start"
    and "req_url request \<in> dom (potentialDifferentServices s)"
    and "req_url request \<in> dom (startUrlChildren s)"
    and "originalDomainOf parse request = Inr od"
    and "t \<in> set (crossDomainLinks pg)" and "shouldExcludeUrl parse t = Inr False"
    and "str_includes (toLowerCase t) (companyNameOf request)"
  shows "discovered (req_url request) od (companyNameOf request) t
           (snd (requestHandler parse request pg s))"
  unfolding requestHandler_phases [OF assms(4)] assms(1)
  using ready_probed [OF assms(2,3)] assms(5-7)
  by (rule extractLinks_Start_discovers)


lemma str_includes_empty [simp]: "str_includes s []"
  by (simp add: str_includes_def)

text \<open>With an empty company name every cross-domain anchor that is not excluded passes the
  name test; on a start URL with registry entries each one is recorded and enqueued.\<close>

lemma empty_company_name_accepts_all:
  assumes "companyNameOf request = []" and "labelOf request = Start"
    and "req_url request \<in> dom (potentialDifferentServices s)"
    and "req_url request \<in> dom (startUrlChildren s)"
    and "originalDomainOf parse request = Inr od"
    and "t \<in> set (crossDomainLinks pg)" and "shouldExcludeUrl parse t = Inr False"
  shows "discovered (req_url request) od [] t (snd (requestHandler parse request pg s))"
  using requestHandler_seed_cross_domain [OF assms(2-7)] by (simp add: assms(1))

subsection \<open>Runs and results\<close>


lemma dom_foldl_entries:
  "dom (foldl (\<lambda>m c. m(c_url c \<mapsto> [])) m cs) = dom m \<union> c_url ` set cs"
  by (induction cs arbitrary: m) auto

lemma dom_initRegistries:
  "dom (potentialDifferentServices (initRegistries cs)) = c_url ` set cs"
  "dom (startUrlChildren (initRegistries cs)) = c_url ` set cs"
  by (simp_all add: initRegistries_def dom_foldl_entries)

lemma initialRequests_total: "\<exists>rs. initialRequests parse cs = Inr rs"
  by (induction cs) (auto simp: extractDomain_value)


lemma results_urls: "map res_url (results cs s) = map c_url cs"
  by (simp add: results_def Let_def)

lemma results_exclude_seed:
  "r \<in> set (results cs s) \<Longrightarrow> res_url r \<notin> set (res_potentialDifferentServices r)"
  by (auto simp: results_def Let_def)


lemma findCompanyServices_value:
  "\<exists>initial. initialRequests parse cs = Inr initial
     \<and> findCompanyServices parse cs visits =
         Inr (results cs (crawl parse visits ((initRegistries cs)\<lparr>addedRequests := initial\<rparr>)))"
  using initialRequests_total [of parse cs] by (auto simp: findCompanyServices_def)

subsection \<open>The example run, evaluated\<close>

lemmas registry_eval =
  requestHandler_def Let_def labelOf_def companyNameOf_def originalDomainOf_def
  initExplored_def trackChild_def clickElement_def catching_def thenDo_def actBind_def
  whenDo_def exploredPush_def servicesPush_def childrenPush_def addRequests_def
  pushIfAbsent_def extractLinks_def crossDomainLink_def enqueueLinks_def
  transformRequestFunction_def lift_def ret_def raise_def childRequest_def


lemma initRegistries_acme: "(initRegistries [acme])\<lparr>addedRequests := [acmeSeed]\<rparr> = acmeStart"
  by (simp add: initRegistries_def acme_def acmeStart_def)


lemma exclude_status: "shouldExcludeUrl parseURL ''https://status.acme.io/'' = Inr False"
  by (simp add: shouldExcludeUrl_def extractDomain_value parseURL_eval EXCLUDED_DOMAINS_def
      endsWith_def suffix_to_prefix)

lemma exclude_twitter: "shouldExcludeUrl parseURL ''https://twitter.com/acme'' = Inr True"
  by (simp add: shouldExcludeUrl_def extractDomain_value parseURL_eval EXCLUDED_DOMAINS_def
      endsWith_def suffix_to_prefix)

lemma exclude_admin: "shouldExcludeUrl parseURL ''https://acme.com/admin'' = Inr False"
  by (simp add: shouldExcludeUrl_def extractDomain_value parseURL_eval EXCLUDED_DOMAINS_def
      endsWith_def suffix_to_prefix)

lemma name_in_status: "str_includes (toLowerCase ''https://status.acme.io/'') ''acme''"
  by (simp add: toLowerCase_def lowerChar_def isUpper_def str_includes_def sublist_Cons_right)

lemma parse_acme: "parseURL ''https://acme.com/'' = Some \<lparr>hostname = ''acme.com'', pathname = ''/''\<rparr>"
  by (simp add: parseURL_eval)

lemma parse_admin:
  "parseURL ''https://acme.com/admin'' = Some \<lparr>hostname = ''acme.com'', pathname = ''/admin''\<rparr>"
  by (simp add: parseURL_eval)

lemma classify_admin: "isPotentialDifferentService parseURL ''https://acme.com/'' ''https://acme.com/admin'' = Inr False"
  using isPotentialDifferentService_root_origin
    [of parseURL "''https://acme.com/''" _ "''https://acme.com/admin''", OF parse_acme _ parse_admin]
  by (simp add: startsWith_def)

lemma handler_acmeSeed: "requestHandler parseURL acmeSeed acmeHome acmeStart = (Inr (), acmeAfterSeed)"
  by (simp add: registry_eval acmeSeed_def acmeHome_def acmeStart_def acmeAfterSeed_def
      toolsRequest_def crossDomainLinks_def str_includes_def sublist_Cons_right
      exclude_status exclude_twitter exclude_admin
      name_in_status [unfolded str_includes_def] classify_admin extractDomain_value parse_acme parse_admin)




subsection \<open>Claims about the run\<close>




text \<open>
  The registries of services and of children get their keys from the company URLs when a
  run starts, and the handler never adds a key: in every state that a run reaches, and in
  every state inside a handler call, the keys are the company URLs.
\<close>

lemma registry_keys_of_a_run:
  assumes "grows ((initRegistries companies)\<lparr>addedRequests := initial\<rparr>) s"
  shows "dom (potentialDifferentServices s) = c_url ` set companies"
    and "dom (startUrlChildren s) = c_url ` set companies"
  using assms by (simp_all add: grows_def dom_initRegistries)

lemma child_extraction_unregistered:
  assumes "url \<notin> dom (potentialDifferentServices s)"
  shows "addedRequests (snd (extractLinks parse url Child od cn pg s)) = addedRequests s"
    and "startUrlChildren (snd (extractLinks parse url Child od cn pg s)) = startUrlChildren s"
    and "potentialDifferentServices (snd (extractLinks parse url Child od cn pg s))
           = potentialDifferentServices s"
  using cross_loop_unregistered [OF assms, of parse od cn "crossDomainLinks pg"]
  by (simp_all add: extractLinks_Child untouched_def)

text \<open>
  Claim \<^bold>\<open>C3\<close>. For a request labelled \<^verbatim>\<open>child\<close> the link extraction consists of the
  cross-domain loop only, \<^verbatim>\<open>enqueueLinks\<close> being reserved to the label \<^verbatim>\<open>start\<close>; and in
  every state of a run (every state grown from the registries that \<^verbatim>\<open>findCompanyServices\<close>
  sets up), for a URL that is not a company URL, as the URL of a child request is, the
  extraction enqueues no request and leaves \<^verbatim>\<open>startUrlChildren\<close> and
  \<^verbatim>\<open>potentialDifferentServices\<close> as they were: it only records URLs as explored.
\<close>

theorem child_extraction_enqueues_nothing:
  assumes "grows ((initRegistries companies)\<lparr>addedRequests := initial\<rparr>) s"
    and "url \<notin> c_url ` set companies"
  shows "extractLinks parse url Child od cn pg
           = forEach (crossDomainLink parse url od cn) (crossDomainLinks pg)
       \<and> addedRequests (snd (extractLinks parse url Child od cn pg s)) = addedRequests s
       \<and> startUrlChildren (snd (extractLinks parse url Child od cn pg s)) = startUrlChildren s
       \<and> potentialDifferentServices (snd (extractLinks parse url Child od cn pg s))
           = potentialDifferentServices s"
proof -
  have un: "url \<notin> dom (potentialDifferentServices s)"
    using assms(2) registry_keys_of_a_run(1) [OF assms(1)] by simp
  show ?thesis
    by (intro conjI extractLinks_Child child_extraction_unregistered [OF un])
qed

text \<open>
  Claim C3 on the child of the example, in the state that the run has reached after the
  home page, on a page with an anchor that contains the company name.
\<close>

theorem child_extraction_enqueues_nothing_witness:
  "grows ((initRegistries [acme])\<lparr>addedRequests := [acmeSeed]\<rparr>) acmeAfterSeed
   \<and> ''https://tools.acme.com/'' \<notin> c_url ` set [acme]
   \<and> ''https://status.acme.io/'' \<in> set (crossDomainLinks toolsPortal)
   \<and> addedRequests (snd (extractLinks parseURL ''https://tools.acme.com/'' Child ''acme.com'' ''acme''
                             toolsPortal acmeAfterSeed))
       = addedRequests acmeAfterSeed
   \<and> startUrlChildren (snd (extractLinks parseURL ''https://tools.acme.com/'' Child ''acme.com'' ''acme''
                               toolsPortal acmeAfterSeed))
       = startUrlChildren acmeAfterSeed"
proof -
  have g: "grows ((initRegistries [acme])\<lparr>addedRequests := [acmeSeed]\<rparr>) acmeAfterSeed"
    using growingD [OF growing_requestHandler, of acmeStart parseURL acmeSeed acmeHome]
    by (simp add: initRegistries_acme handler_acmeSeed)
  have nu: "''https://tools.acme.com/'' \<notin> c_url ` set [acme]"
    by (simp add: acme_def)
  have a: "''https://status.acme.io/'' \<in> set (crossDomainLinks toolsPortal)"
    by (simp add: crossDomainLinks_def toolsPortal_def str_includes_def sublist_Cons_right)
  note unchanged =
    child_extraction_enqueues_nothing [OF g nu, of parseURL "''acme.com''" "''acme''" toolsPortal]
  have q: "addedRequests (snd (extractLinks parseURL ''https://tools.acme.com/'' Child ''acme.com''
                                 ''acme'' toolsPortal acmeAfterSeed))
             = addedRequests acmeAfterSeed"
    by (rule unchanged [THEN conjunct2, THEN conjunct1])
  have c: "startUrlChildren (snd (extractLinks parseURL ''https://tools.acme.com/'' Child ''acme.com''
                                    ''acme'' toolsPortal acmeAfterSeed))
             = startUrlChildren acmeAfterSeed"
    by (rule unchanged [THEN conjunct2, THEN conjunct2, THEN conjunct1])
  show ?thesis
    by (intro conjI g nu a q c)
qed

text \<open>
  Claim \<^bold>\<open>C4\<close> (the code at the failing inputs). When the URL of a request has no entry
  in \<^verbatim>\<open>potentialDifferentServices\<close>, as for every child request whose URL is not a seed
  URL, and the page has a cross-domain anchor that is not excluded and contains the
  company name, the handler throws a \<^verbatim>\<open>TypeError\<close>: the processing of the request does
  not complete.
\<close>

theorem request_without_registry_entry_throws:
  assumes "req_url request \<notin> dom (potentialDifferentServices s)"
    and "t \<in> set (crossDomainLinks pg)"
    and "shouldExcludeUrl parse t = Inr False"
    and "str_includes (toLowerCase t) (companyNameOf request)"
  shows "fst (requestHandler parse request pg s) = Inl TypeError"
  using assms by (rule requestHandler_unregistered(1))

text \<open>The child request of the example on a page with such an anchor.\<close>

theorem request_without_registry_entry_throws_witness:
  "labelOf toolsRequest = Child
   \<and> req_url toolsRequest \<notin> dom (potentialDifferentServices acmeAfterSeed)
   \<and> ''https://status.acme.io/'' \<in> set (crossDomainLinks toolsPortal)
   \<and> shouldExcludeUrl parseURL ''https://status.acme.io/'' = Inr False
   \<and> str_includes (toLowerCase ''https://status.acme.io/'') (companyNameOf toolsRequest)
   \<and> fst (requestHandler parseURL toolsRequest toolsPortal acmeAfterSeed) = Inl TypeError"
proof -
  have l: "labelOf toolsRequest = Child"
    by (simp add: labelOf_def toolsRequest_def childRequest_def)
  have un: "req_url toolsRequest \<notin> dom (potentialDifferentServices acmeAfterSeed)"
    by (simp add: acmeAfterSeed_def toolsRequest_def childRequest_def)
  have a: "''https://status.acme.io/'' \<in> set (crossDomainLinks toolsPortal)"
    by (simp add: crossDomainLinks_def toolsPortal_def str_includes_def sublist_Cons_right)
  have n: "str_includes (toLowerCase ''https://status.acme.io/'') (companyNameOf toolsRequest)"
    using name_in_status by (simp add: companyNameOf_def toolsRequest_def childRequest_def)
  show ?thesis
    using l un a n exclude_status
      request_without_registry_entry_throws [OF un a exclude_status n]
    by simp
qed






text \<open>
  Claim \<^bold>\<open>C6\<close>. For every list of companies and every run, \<^verbatim>\<open>findCompanyServices\<close>
  returns one record per company, in order, and no record lists its own URL among its
  \<^verbatim>\<open>potentialDifferentServices\<close>.
\<close>

theorem output_excludes_seed:
  "\<exists>rs. findCompanyServices parse companies visits = Inr rs
        \<and> map res_url rs = map c_url companies
        \<and> (\<forall>r \<in> set rs. res_url r \<notin> set (res_potentialDifferentServices r))"
proof -
  obtain initial where
    "findCompanyServices parse companies visits =
       Inr (results companies
              (crawl parse visits ((initRegistries companies)\<lparr>addedRequests := initial\<rparr>)))"
    using findCompanyServices_value by blast
  then show ?thesis
    by (auto simp: results_urls dest: results_exclude_seed)
qed

text \<open>
  A run in which the registry itself does contain the seed URL: the home page was
  redirected to another host and has an anchor back to the seed URL. The output record
  does not list it.
\<close>

theorem output_excludes_seed_witness:
  "''https://acme.com/''
     \<in> entries (potentialDifferentServices (crawl parseURL [(acmeSeed, acmeRedirected)] acmeStart))
         ''https://acme.com/''
   \<and> (\<exists>rs. findCompanyServices parseURL [acme] [(acmeSeed, acmeRedirected)] = Inr rs
          \<and> rs \<noteq> []
          \<and> res_url (hd rs) = ''https://acme.com/''
          \<and> ''https://acme.com/'' \<notin> set (res_potentialDifferentServices (hd rs)))"
proof -
  have ex: "shouldExcludeUrl parseURL ''https://acme.com/'' = Inr False"
    by (simp add: shouldExcludeUrl_def extractDomain_value parse_acme EXCLUDED_DOMAINS_def
        startsWith_def endsWith_def suffix_to_prefix)
  have nm: "sublist ''acme'' (toLowerCase ''https://acme.com/'')"
    by (simp add: toLowerCase_def lowerChar_def isUpper_def sublist_Cons_right)
  have inside: "''https://acme.com/''
     \<in> entries (potentialDifferentServices (crawl parseURL [(acmeSeed, acmeRedirected)] acmeStart))
         ''https://acme.com/''"
    by (simp add: registry_eval acmeSeed_def acmeStart_def crossDomainLinks_def ex nm
        str_includes_def sublist_Cons_right entries_def acmeRedirected_def)
  obtain rs where rs: "findCompanyServices parseURL [acme] [(acmeSeed, acmeRedirected)] = Inr rs"
    and urls: "map res_url rs = map c_url [acme]"
    and out: "\<forall>r \<in> set rs. res_url r \<notin> set (res_potentialDifferentServices r)"
    using output_excludes_seed [of parseURL "[acme]" "[(acmeSeed, acmeRedirected)]"] by blast
  from urls obtain r where r: "rs = [r]" "res_url r = ''https://acme.com/''"
    by (cases rs) (auto simp: acme_def)
  with out have "''https://acme.com/'' \<notin> set (res_potentialDifferentServices (hd rs))"
    by auto
  with inside rs r show ?thesis by simp
qed

end
